theory Spec2Isabelle
  imports Main "HOL-Library.AList"
begin

section \<open>The route map of starlite (src/starlite/route\_map.py)\<close>

text \<open>
  A shallow embedding of \<^verbatim>\<open>PythonRouteMap\<close>: the two registration structures (the segment
  tree and the flat map of plain routes), \<^verbatim>\<open>add_routes\<close>, \<^verbatim>\<open>resolve_route\<close> and
  \<^verbatim>\<open>_traverse_route_map\<close>.

  Python objects are mutated in place; here every function takes the object and returns
  the updated one. A \<^verbatim>\<open>dict\<close> is an association list in insertion order, read with
  \<^const>\<open>map_of\<close> and written with \<^const>\<open>AList.update\<close> (an existing key keeps its place, a new
  key goes to the end, as in Python). An exception is a value; a function that may raise
  after it has mutated returns the exception together with the state it leaves behind.
\<close>

subsection \<open>Strings\<close>

text \<open>
  A \<^verbatim>\<open>str\<close> is a \<^typ>\<open>string\<close>; a character stands for the code point of the same number
  (code points above 255 are outside the model). \<^verbatim>\<open>str.isspace\<close> on these code points:
  TAB, LF, VT, FF, CR, the separators 0x1C..0x1F, SPACE, NEL (0x85) and NBSP (0xA0).
\<close>

definition isspace :: "char \<Rightarrow> bool" where
  "isspace c = (of_char c \<in> {9, 10, 11, 12, 13, 28, 29, 30, 31, 32, 133, 160 :: nat})"

text \<open>\<^verbatim>\<open>s.strip()\<close>: leading and trailing whitespace removed.\<close>

definition strip :: "string \<Rightarrow> string" where
  "strip s = rev (dropWhile isspace (rev (dropWhile isspace s)))"

text \<open>\<^verbatim>\<open>s.rstrip(chars)\<close>: every trailing character that occurs in \<^verbatim>\<open>chars\<close> removed.\<close>

definition rstrip :: "string \<Rightarrow> string \<Rightarrow> string" where
  "rstrip s chars = rev (dropWhile (\<lambda>c. c \<in> set chars) (rev s))"

text \<open>\<^verbatim>\<open>s.endswith(suffix)\<close>.\<close>

definition endswith :: "string \<Rightarrow> string \<Rightarrow> bool" where
  "endswith s suffix =
     (length suffix \<le> length s \<and> drop (length s - length suffix) s = suffix)"

text \<open>\<^verbatim>\<open>s.startswith(prefix)\<close>, used by \<^verbatim>\<open>replace\<close> below.\<close>

definition startswith :: "string \<Rightarrow> string \<Rightarrow> bool" where
  "startswith s prefix = (take (length prefix) s = prefix)"

text \<open>
  \<^verbatim>\<open>s.split(sep)\<close> for a separator of one character (the source only splits at
  \<^verbatim>\<open>"/"\<close>): the pieces between separators, empty pieces included.
\<close>

fun str_split :: "string \<Rightarrow> char \<Rightarrow> string list" where
  "str_split [] sep = [[]]"
| "str_split (c # cs) sep =
     (if c = sep then [] # str_split cs sep
      else (case str_split cs sep of
              [] \<Rightarrow> [[c]]
            | w # ws \<Rightarrow> (c # w) # ws))"

text \<open>
  \<^verbatim>\<open>s.replace(old, new)\<close>: every non-overlapping occurrence of \<^verbatim>\<open>old\<close>, scanning from
  the left, is replaced. For an empty \<^verbatim>\<open>old\<close> Python puts \<^verbatim>\<open>new\<close> before every
  character and at the end.
\<close>

function replace_nonempty :: "string \<Rightarrow> string \<Rightarrow> string \<Rightarrow> string" where
  "replace_nonempty s old new =
     (if s = [] \<or> old = [] then s
      else if startswith s old then new @ replace_nonempty (drop (length old) s) old new
      else hd s # replace_nonempty (tl s) old new)"
  by pat_completeness auto
termination
  by (relation "measure (\<lambda>(s, old, new). length s)") auto

declare replace_nonempty.simps [simp del]

definition replace :: "string \<Rightarrow> string \<Rightarrow> string \<Rightarrow> string" where
  "replace s old new =
     (if old = [] then new @ concat (map (\<lambda>c. c # new) s)
      else replace_nonempty s old new)"

subsection \<open>Dictionaries\<close>

text \<open>\<^verbatim>\<open>key in d\<close>.\<close>

definition contains :: "('k \<times> 'v) list \<Rightarrow> 'k \<Rightarrow> bool" where
  "contains d key = (map_of d key \<noteq> None)"

text \<open>
  \<^verbatim>\<open>d[key]\<close> on a \<^verbatim>\<open>defaultdict(factory)\<close>: a missing key is first inserted with the
  factory's value (\<^verbatim>\<open>__missing__\<close>). The result is the value and the dictionary as it is
  after the access.
\<close>

definition defaultdict_getitem ::
  "'v \<Rightarrow> ('k \<times> 'v) list \<Rightarrow> 'k \<Rightarrow> 'v \<times> ('k \<times> 'v) list" where
  "defaultdict_getitem factory d key =
     (case map_of d key of
        Some v \<Rightarrow> (v, d)
      | None \<Rightarrow> (factory, AList.update key factory d))"

subsection \<open>Data model\<close>

text \<open>
  A path parameter definition is the dict \<^verbatim>\<open>{"name": .., "full": .., "type": ..}\<close>; the
  type is a Python class, given here by its name.
\<close>

record param_definition =
  name :: string
  full :: string
  param_type :: string

text \<open>\<^verbatim>\<open>_RouteMapLeafData\<close>; \<open>'a\<close> is the type of ASGI apps.\<close>

record 'a RouteMapLeafData =
  path_parameters :: "param_definition list"
  asgi_handlers :: "(string \<times> 'a) list"
  is_asgi :: bool
  static_path :: string

definition new_RouteMapLeafData :: "'a RouteMapLeafData" where
  "new_RouteMapLeafData =
     \<lparr>path_parameters = [], asgi_handlers = [], is_asgi = False, static_path = []\<rparr>"

text \<open>\<^verbatim>\<open>_RouteMapTree\<close>: \<^verbatim>\<open>children\<close> is a \<^verbatim>\<open>defaultdict(_RouteMapTree)\<close>.\<close>

datatype 'a RouteMapTree =
  RouteMapTree (children: "(string \<times> 'a RouteMapTree) list") (data: "'a RouteMapLeafData option")

definition new_RouteMapTree :: "'a RouteMapTree" where
  "new_RouteMapTree = RouteMapTree [] None"

text \<open>
  The state of a \<^verbatim>\<open>PythonRouteMap\<close>. The reference \<^verbatim>\<open>_app\<close> is not part of it: the
  application is mutated from outside between calls (\<^verbatim>\<open>Starlite.__init__\<close> fills
  \<^verbatim>\<open>static_paths\<close> after the first routes are registered), so every call takes the
  application as it is at that moment.
\<close>

record 'a PythonRouteMap =
  plain_routes :: "(string \<times> 'a RouteMapTree) list"
  tree :: "'a RouteMapTree"

definition init_PythonRouteMap :: "'a PythonRouteMap" where
  "init_PythonRouteMap = \<lparr>plain_routes = [], tree = new_RouteMapTree\<rparr>"

text \<open>
  The three route classes of \<^verbatim>\<open>starlite.routes\<close> and any other subclass of
  \<^verbatim>\<open>BaseRoute\<close> (with the text that \<^verbatim>\<open>type(route)\<close> formats to). \<open>'h\<close> is the type of route
  handlers. \<^verbatim>\<open>route_handler_map\<close> maps a method to a pair of which \<^verbatim>\<open>add_routes\<close> reads only
  the handler; the list holds its items in iteration order.
\<close>

datatype 'h route_class =
  HTTPRoute (route_handler_map: "(string \<times> 'h) list")
| WebSocketRoute 'h
| ASGIRoute 'h
| OtherRoute string

record 'h route =
  path :: string
  route_path_parameters :: "param_definition list"
  route_class :: "'h route_class"

text \<open>
  What \<^verbatim>\<open>add_routes\<close> reads of the application: the set \<^verbatim>\<open>static_paths\<close> and the method
  \<^verbatim>\<open>build_route_middleware_stack\<close>, which wraps a handler into an ASGI app; the route map
  sees it as a function of the route and the handler that always returns.
\<close>

record ('h, 'a) app =
  static_paths :: "string set"
  build_route_middleware_stack :: "'h route \<Rightarrow> 'h \<Rightarrow> 'a"

text \<open>
  The ASGI connection scope, a dict: \<^verbatim>\<open>"path"\<close> and \<^verbatim>\<open>"type"\<close> are always there,
  \<^verbatim>\<open>"method"\<close> only in HTTP scopes, \<^verbatim>\<open>"path_params"\<close> once \<^verbatim>\<open>resolve_route\<close> has written it.
\<close>

record 'p scope =
  scope_path :: string
  scope_type :: string
  scope_method :: "string option"
  scope_path_params :: "'p option"

text \<open>
  Modelled from the spec: \<^verbatim>\<open>starlite.enums.ScopeType\<close> is not among the sources. Its
  members are strings (they are keys of \<^verbatim>\<open>Dict[str, ASGIApp]\<close> and are compared with
  \<^verbatim>\<open>scope["type"]\<close>): the HTTP and WebSocket scope types of ASGI and the marker of a
  mounted ASGI app.
\<close>

definition ScopeType_HTTP :: string where
  "ScopeType_HTTP = ''http''"

definition ScopeType_WEBSOCKET :: string where
  "ScopeType_WEBSOCKET = ''websocket''"

definition ScopeType_ASGI :: string where
  "ScopeType_ASGI = ''asgi''"

text \<open>
  Exceptions, each with the arguments it is constructed with. \<^verbatim>\<open>ParserException\<close> stands
  for whatever the external \<^verbatim>\<open>parse_path_params\<close> raises other than \<^verbatim>\<open>KeyError\<close>.
\<close>

datatype exception =
  NotFoundException "string list"
| MethodNotAllowedException "string list"
| ImproperlyConfiguredException "string list"
| ParserException

text \<open>
  \<^verbatim>\<open>starlite.parsers.parse_path_params\<close> is not among the sources; the functions below
  take it as a parameter. It returns the parsed parameters or raises, and it only reads
  the two lists it is given.
\<close>

datatype parser_failure = KeyError | OtherError

type_synonym 'p parser = "param_definition list \<Rightarrow> string list \<Rightarrow> parser_failure + 'p"

subsection \<open>Registration: \<^verbatim>\<open>add_routes\<close>\<close>

text \<open>
  Lines 67 to 78: the handlers of the route are written into the leaf data, under the
  method for an HTTP route, under the WebSocket or the ASGI key otherwise; a route of
  another class raises. A key that is already there is overwritten.
\<close>

definition store_handlers ::
  "('h, 'a) app \<Rightarrow> 'h route \<Rightarrow> 'a RouteMapLeafData \<Rightarrow> exception option \<times> 'a RouteMapLeafData" where
  "store_handlers the_app route d =
     (case route_class route of
        HTTPRoute handler_map \<Rightarrow>
          (None,
           d\<lparr>asgi_handlers :=
               fold (\<lambda>(method, handler) handlers.
                       AList.update method (build_route_middleware_stack the_app route handler) handlers)
                 handler_map (asgi_handlers d)\<rparr>)
      | WebSocketRoute handler \<Rightarrow>
          (None,
           d\<lparr>asgi_handlers :=
               AList.update ScopeType_WEBSOCKET
                 (build_route_middleware_stack the_app route handler) (asgi_handlers d)\<rparr>)
      | ASGIRoute handler \<Rightarrow>
          (None,
           d\<lparr>asgi_handlers :=
               AList.update ScopeType_ASGI
                 (build_route_middleware_stack the_app route handler) (asgi_handlers d),
             is_asgi := True\<rparr>)
      | OtherRoute cls \<Rightarrow>
          (Some (ImproperlyConfiguredException [''Unknown route type '' @ cls @ '')'']), d))"

text \<open>
  Lines 57 to 78: what one iteration of \<^verbatim>\<open>add_routes\<close> does to the node \<^verbatim>\<open>cur\<close> once it
  is found. \<open>pth\<close> is the local variable \<^verbatim>\<open>path\<close>, for a route of the tree the path with every
  parameter replaced by \<^verbatim>\<open>*\<close>. The result is the exception raised, if any, and the
  node as it is then.
\<close>

definition store_route ::
  "('h, 'a) app \<Rightarrow> 'h route \<Rightarrow> string \<Rightarrow> 'a RouteMapTree \<Rightarrow> exception option \<times> 'a RouteMapTree" where
  "store_route the_app route pth cur =
     (let d = (case data cur of None \<Rightarrow> new_RouteMapLeafData | Some d \<Rightarrow> d)
      in if path_parameters d \<noteq> [] \<and> path_parameters d \<noteq> route_path_parameters route
         then (Some (ImproperlyConfiguredException [''Routes with conflicting path parameters'']),
               RouteMapTree (children cur) (Some d))
         else
           (let d1 = d\<lparr>path_parameters := route_path_parameters route\<rparr>;
                d2 = (if pth \<in> static_paths the_app
                      then d1\<lparr>is_asgi := True, static_path := pth\<rparr> else d1);
                (raised, d3) = store_handlers the_app route d2
            in (raised, RouteMapTree (children cur) (Some d3))))"

text \<open>
  Lines 50 to 53 followed by the rest of the iteration: \<^verbatim>\<open>cur = cur.children[component]\<close>
  for every component, each access creating the child when it is missing, then \<open>body\<close> on
  the node reached. Every node on the way is returned with its child as it is afterwards.
\<close>

fun descend ::
  "string list \<Rightarrow> ('a RouteMapTree \<Rightarrow> exception option \<times> 'a RouteMapTree) \<Rightarrow>
   'a RouteMapTree \<Rightarrow> exception option \<times> 'a RouteMapTree" where
  "descend [] body cur = body cur"
| "descend (component # components) body cur =
     (let (child, children1) = defaultdict_getitem new_RouteMapTree (children cur) component;
          (raised, child1) = descend components body child
      in (raised, RouteMapTree (AList.update component child1 children1) (data cur)))"

text \<open>\<^verbatim>\<open>["/", *[component for component in path.split("/") if component]]\<close>.\<close>

definition components_of :: "string \<Rightarrow> string list" where
  "components_of pth = ''/'' # filter (\<lambda>component. component \<noteq> []) (str_split pth CHR ''/'')"

text \<open>Lines 48 and 49: the path with every parameter of the route replaced by \<^verbatim>\<open>*\<close>.\<close>

definition wildcard_path :: "'h route \<Rightarrow> string" where
  "wildcard_path route =
     fold (\<lambda>param_definition p. replace p (''{'' @ full param_definition @ ''}'') ''*'')
       (route_path_parameters route) (path route)"

text \<open>One iteration of the loop of \<^verbatim>\<open>add_routes\<close>.\<close>

definition add_route ::
  "('h, 'a) app \<Rightarrow> 'a PythonRouteMap \<Rightarrow> 'h route \<Rightarrow> exception option \<times> 'a PythonRouteMap" where
  "add_route the_app self route =
     (if route_path_parameters route \<noteq> [] \<or> path route \<in> static_paths the_app then
        (let pth = wildcard_path route;
             (raised, tree1) = descend (components_of pth) (store_route the_app route pth) (tree self)
         in (raised, self\<lparr>tree := tree1\<rparr>))
      else
        (let (cur, plain1) = defaultdict_getitem new_RouteMapTree (plain_routes self) (path route);
             (raised, cur1) = store_route the_app route (path route) cur
         in (raised, self\<lparr>plain_routes := AList.update (path route) cur1 plain1\<rparr>)))"

text \<open>\<^verbatim>\<open>add_routes\<close>: the routes in order, stopping at the first exception.\<close>

fun add_routes ::
  "('h, 'a) app \<Rightarrow> 'a PythonRouteMap \<Rightarrow> 'h route list \<Rightarrow> exception option \<times> 'a PythonRouteMap" where
  "add_routes the_app self [] = (None, self)"
| "add_routes the_app self (route # routes) =
     (case add_route the_app self route of
        (Some e, self1) \<Rightarrow> (Some e, self1)
      | (None, self1) \<Rightarrow> add_routes the_app self1 routes)"

subsection \<open>Resolution: \<^verbatim>\<open>_traverse_route_map\<close> and \<^verbatim>\<open>resolve_route\<close>\<close>

text \<open>
  The loop of \<^verbatim>\<open>_traverse_route_map\<close> (lines 118 to 133) from the node \<^verbatim>\<open>cur\<close> on. The
  result is the node reached and the wildcard values, or the exception; the scope, whose
  \<^verbatim>\<open>"path"\<close> a mount rewrites; and the node \<^verbatim>\<open>cur\<close> as the accesses leave it
  (\<^verbatim>\<open>cur.children[component]\<close> is an access to a \<^verbatim>\<open>defaultdict\<close>).
\<close>

fun traverse_loop ::
  "'a RouteMapTree \<Rightarrow> string list \<Rightarrow> string list \<Rightarrow> 'p scope \<Rightarrow>
   (exception + 'a RouteMapTree \<times> string list) \<times> 'p scope \<times> 'a RouteMapTree" where
  "traverse_loop cur [] path_params scope = (Inr (cur, path_params), scope, cur)"
| "traverse_loop cur (component # components) path_params scope =
     (if contains (children cur) component then
        (let (child, children1) = defaultdict_getitem new_RouteMapTree (children cur) component;
             (res, scope1, child1) = traverse_loop child components path_params scope
         in (res, scope1, RouteMapTree (AList.update component child1 children1) (data cur)))
      else if contains (children cur) ''*'' then
        (let (child, children1) = defaultdict_getitem new_RouteMapTree (children cur) ''*'';
             (res, scope1, child1) =
               traverse_loop child components (path_params @ [component]) scope
         in (res, scope1, RouteMapTree (AList.update ''*'' child1 children1) (data cur)))
      else
        (case data cur of
           None \<Rightarrow> (Inl (NotFoundException []), scope, cur)
         | Some d \<Rightarrow>
             if static_path d \<noteq> [] then
               traverse_loop cur components path_params
                 (if static_path d \<noteq> ''/''
                  then scope\<lparr>scope_path := replace (scope_path scope) (static_path d) []\<rparr>
                  else scope)
             else (Inl (NotFoundException []), scope, cur)))"

definition traverse_route_map ::
  "'a PythonRouteMap \<Rightarrow> string \<Rightarrow> 'p scope \<Rightarrow>
   (exception + 'a RouteMapTree \<times> string list) \<times> 'p scope \<times> 'a PythonRouteMap" where
  "traverse_route_map self pth scope =
     (let (res, scope1, tree1) = traverse_loop (tree self) (components_of pth) [] scope
      in (res, scope1, self\<lparr>tree := tree1\<rparr>))"

text \<open>Lines 85 to 87: the path that is looked up.\<close>

definition request_path :: "string \<Rightarrow> string" where
  "request_path raw =
     (let pth = strip raw
      in if pth \<noteq> ''/'' \<and> endswith pth ''/'' then rstrip pth ''/'' else pth)"

text \<open>
  Lines 94 to 105, on the node found. A \<^verbatim>\<open>KeyError\<close> (a missing key of
  \<^verbatim>\<open>asgi_handlers\<close>, a scope without \<^verbatim>\<open>"method"\<close>, or one from the parser) becomes
  \<^verbatim>\<open>NotFoundException\<close> in the handler of line 106.
\<close>

definition dispatch ::
  "'p parser \<Rightarrow> 'a RouteMapTree \<Rightarrow> string list \<Rightarrow> 'p scope \<Rightarrow> (exception + 'a) \<times> 'p scope" where
  "dispatch parse_path_params cur path_params scope =
     (case data cur of
        None \<Rightarrow> (Inl (NotFoundException []), scope)
      | Some d \<Rightarrow>
          (case parse_path_params (path_parameters d) path_params of
             Inl KeyError \<Rightarrow> (Inl (NotFoundException []), scope)
           | Inl OtherError \<Rightarrow> (Inl ParserException, scope)
           | Inr parsed \<Rightarrow>
               (let scope1 = scope\<lparr>scope_path_params := Some parsed\<rparr>
                in if is_asgi d then
                     (case map_of (asgi_handlers d) ScopeType_ASGI of
                        None \<Rightarrow> (Inl (NotFoundException []), scope1)
                      | Some h \<Rightarrow> (Inr h, scope1))
                   else if scope_type scope1 = ScopeType_HTTP then
                     (case scope_method scope1 of
                        None \<Rightarrow> (Inl (NotFoundException []), scope1)
                      | Some method \<Rightarrow>
                          (case map_of (asgi_handlers d) method of
                             None \<Rightarrow> (Inl (MethodNotAllowedException []), scope1)
                           | Some h \<Rightarrow> (Inr h, scope1)))
                   else
                     (case map_of (asgi_handlers d) ScopeType_WEBSOCKET of
                        None \<Rightarrow> (Inl (NotFoundException []), scope1)
                      | Some h \<Rightarrow> (Inr h, scope1)))))"

text \<open>
  Lines 88 to 92: the node for the path, in the plain routes or else in the tree, and the
  wildcard values.
\<close>

definition find_node ::
  "'a PythonRouteMap \<Rightarrow> string \<Rightarrow> 'p scope \<Rightarrow>
   (exception + 'a RouteMapTree \<times> string list) \<times> 'p scope \<times> 'a PythonRouteMap" where
  "find_node self pth scope =
     (if contains (plain_routes self) pth then
        (let (cur, plain1) = defaultdict_getitem new_RouteMapTree (plain_routes self) pth
         in (Inr (cur, []), scope, self\<lparr>plain_routes := plain1\<rparr>))
      else traverse_route_map self pth scope)"

text \<open>
  \<^verbatim>\<open>resolve_route\<close>: the ASGI app or the exception, the scope and the route map as the call
  leaves them.
\<close>

definition resolve_route ::
  "'p parser \<Rightarrow> 'a PythonRouteMap \<Rightarrow> 'p scope \<Rightarrow> (exception + 'a) \<times> 'p scope \<times> 'a PythonRouteMap" where
  "resolve_route parse_path_params self scope =
     (case find_node self (request_path (scope_path scope)) scope of
        (Inl e, scope1, self1) \<Rightarrow> (Inl e, scope1, self1)
      | (Inr (cur, path_params), scope1, self1) \<Rightarrow>
          (let (res, scope2) = dispatch parse_path_params cur path_params scope1
           in (res, scope2, self1)))"

subsection \<open>Where a route is registered\<close>

text \<open>
  Notions used to state the properties of \<^verbatim>\<open>add_routes\<close>; they are not functions of the
  source. A route goes into the tree when the condition of line 47 holds; its local
  variable \<^verbatim>\<open>path\<close> is then the path with wildcards. The node of a route in a route map is
  the node at the end of the chain of children named by the components of that path, or
  the entry of the plain routes under its path. The entries of a route are the pairs of
  key and ASGI app that lines 67 to 76 write, in order.
\<close>

definition in_tree :: "('h, 'a) app \<Rightarrow> 'h route \<Rightarrow> bool" where
  "in_tree the_app route \<longleftrightarrow>
     route_path_parameters route \<noteq> [] \<or> path route \<in> static_paths the_app"

definition local_path :: "('h, 'a) app \<Rightarrow> 'h route \<Rightarrow> string" where
  "local_path the_app route = (if in_tree the_app route then wildcard_path route else path route)"

fun node_at :: "'a RouteMapTree \<Rightarrow> string list \<Rightarrow> 'a RouteMapTree option" where
  "node_at cur [] = Some cur"
| "node_at cur (component # components) =
     (case map_of (children cur) component of
        None \<Rightarrow> None
      | Some child \<Rightarrow> node_at child components)"

definition node_of :: "('h, 'a) app \<Rightarrow> 'a PythonRouteMap \<Rightarrow> 'h route \<Rightarrow> 'a RouteMapTree option" where
  "node_of the_app self route =
     (if in_tree the_app route
      then node_at (tree self) (components_of (wildcard_path route))
      else map_of (plain_routes self) (path route))"

definition entries :: "('h, 'a) app \<Rightarrow> 'h route \<Rightarrow> (string \<times> 'a) list" where
  "entries the_app route =
     (case route_class route of
        HTTPRoute handler_map \<Rightarrow>
          map (\<lambda>(method, handler). (method, build_route_middleware_stack the_app route handler))
            handler_map
      | WebSocketRoute handler \<Rightarrow>
          [(ScopeType_WEBSOCKET, build_route_middleware_stack the_app route handler)]
      | ASGIRoute handler \<Rightarrow>
          [(ScopeType_ASGI, build_route_middleware_stack the_app route handler)]
      | OtherRoute cls \<Rightarrow> [])"

text \<open>The key under which lines 99 to 105 look the handler up, if the scope has one.\<close>

definition selected_key :: "'a RouteMapLeafData \<Rightarrow> 'p scope \<Rightarrow> string option" where
  "selected_key d scope =
     (if is_asgi d then Some ScopeType_ASGI
      else if scope_type scope = ScopeType_HTTP then scope_method scope
      else Some ScopeType_WEBSOCKET)"

subsection \<open>The normalisation in the words of the specification\<close>

text \<open>
  ``Strip a single trailing \<^verbatim>\<open>/\<close> unless the path is exactly \<^verbatim>\<open>/\<close>'': the specification's
  rule, to be compared with \<^const>\<open>request_path\<close>.
\<close>

definition strip_single_trailing_slash :: "string \<Rightarrow> string" where
  "strip_single_trailing_slash pth =
     (if pth \<noteq> ''/'' \<and> pth \<noteq> [] \<and> last pth = CHR ''/'' then butlast pth else pth)"

subsection \<open>Example data\<close>

text \<open>
  A small application for the concrete instances below: handlers and ASGI apps are named
  by strings, the middleware stack of a handler is the handler itself, \<^verbatim>\<open>/static\<close> is a
  static path. The parser binds the values to the parameter names by position and fails
  when there are fewer values than names.
\<close>

definition example_app :: "(string, string) app" where
  "example_app =
     \<lparr>static_paths = {''/static''}, build_route_middleware_stack = (\<lambda>route handler. handler)\<rparr>"

definition example_parser :: "(string \<times> string) list parser" where
  "example_parser definitions raw =
     (if length raw < length definitions then Inl OtherError
      else Inr (zip (map name definitions) raw))"

definition static_files :: "string route" where
  "static_files =
     \<lparr>path = ''/static'', route_path_parameters = [], route_class = ASGIRoute ''static_files''\<rparr>"

definition items_route :: "string route" where
  "items_route =
     \<lparr>path = ''/items'', route_path_parameters = [],
      route_class = HTTPRoute [(''GET'', ''list_items'')]\<rparr>"

definition item_route :: "string route" where
  "item_route =
     \<lparr>path = ''/items/{id:int}'',
      route_path_parameters = [\<lparr>name = ''id'', full = ''id:int'', param_type = ''int''\<rparr>],
      route_class = HTTPRoute [(''GET'', ''get_item'')]\<rparr>"

definition example_map :: "string PythonRouteMap" where
  "example_map =
     snd (add_routes example_app init_PythonRouteMap [static_files, items_route, item_route])"

definition http_scope :: "string \<Rightarrow> string \<Rightarrow> (string \<times> string) list scope" where
  "http_scope pth method =
     \<lparr>scope_path = pth, scope_type = ScopeType_HTTP, scope_method = Some method,
      scope_path_params = None\<rparr>"








text \<open>
  An HTTP route registered at the static path itself: its leaf is marked \<^verbatim>\<open>is_asgi\<close> and
  has no handler under the ASGI key.
\<close>

definition index_at_static :: "string route" where
  "index_at_static =
     \<lparr>path = ''/static'', route_path_parameters = [],
      route_class = HTTPRoute [(''GET'', ''index'')]\<rparr>"

definition shadowed_map :: "string PythonRouteMap" where
  "shadowed_map = snd (add_routes example_app init_PythonRouteMap [index_at_static])"

definition websocket_scope :: "string \<Rightarrow> (string \<times> string) list scope" where
  "websocket_scope pth =
     \<lparr>scope_path = pth, scope_type = ScopeType_WEBSOCKET, scope_method = None,
      scope_path_params = None\<rparr>"

text \<open>
  Two HTTP routes at the same plain path, each with a handler for GET; a route at the
  root; a WebSocket route.
\<close>

definition first_items :: "string route" where
  "first_items =
     \<lparr>path = ''/items'', route_path_parameters = [],
      route_class = HTTPRoute [(''GET'', ''first'')]\<rparr>"

definition second_items :: "string route" where
  "second_items =
     \<lparr>path = ''/items'', route_path_parameters = [],
      route_class = HTTPRoute [(''GET'', ''second''), (''POST'', ''create'')]\<rparr>"

definition root_route :: "string route" where
  "root_route =
     \<lparr>path = ''/'', route_path_parameters = [], route_class = HTTPRoute [(''GET'', ''home'')]\<rparr>"

text \<open>
  Routes that meet at the same node of the tree: \<^verbatim>\<open>/a/{x}\<close> and \<^verbatim>\<open>/a/{y}\<close>; and, in
  an application whose static path is \<^verbatim>\<open>/files/*\<close>, the mount at that path and the route
  \<^verbatim>\<open>/files/{name:str}\<close>.
\<close>

definition route_a_x :: "string route" where
  "route_a_x =
     \<lparr>path = ''/a/{x}'',
      route_path_parameters = [\<lparr>name = ''x'', full = ''x'', param_type = ''str''\<rparr>],
      route_class = HTTPRoute [(''GET'', ''get_x'')]\<rparr>"

definition route_a_y :: "string route" where
  "route_a_y =
     \<lparr>path = ''/a/{y}'',
      route_path_parameters = [\<lparr>name = ''y'', full = ''y'', param_type = ''str''\<rparr>],
      route_class = HTTPRoute [(''GET'', ''get_y'')]\<rparr>"

definition files_app :: "(string, string) app" where
  "files_app =
     \<lparr>static_paths = {''/files/*''}, build_route_middleware_stack = (\<lambda>route handler. handler)\<rparr>"

definition files_mount :: "string route" where
  "files_mount =
     \<lparr>path = ''/files/*'', route_path_parameters = [], route_class = ASGIRoute ''files''\<rparr>"

definition file_route :: "string route" where
  "file_route =
     \<lparr>path = ''/files/{name:str}'',
      route_path_parameters = [\<lparr>name = ''name'', full = ''name:str'', param_type = ''str''\<rparr>],
      route_class = HTTPRoute [(''GET'', ''get_file'')]\<rparr>"

text \<open>
  An application whose static path is \<^verbatim>\<open>/\<close>, and an ASGI route at \<^verbatim>\<open>/\<close>.
\<close>

definition root_static_app :: "(string, string) app" where
  "root_static_app =
     \<lparr>static_paths = {''/''}, build_route_middleware_stack = (\<lambda>route handler. handler)\<rparr>"

definition root_asgi :: "string route" where
  "root_asgi =
     \<lparr>path = ''/'', route_path_parameters = [], route_class = ASGIRoute ''root_app''\<rparr>"

section \<open>Properties\<close>

subsection \<open>Dictionaries and the steps of the traversal\<close>

lemma defaultdict_getitem_present:
  "map_of d key = Some v \<Longrightarrow> defaultdict_getitem factory d key = (v, d)"
  by (simp add: defaultdict_getitem_def)

lemma contains_iff: "contains d key \<longleftrightarrow> (\<exists>v. map_of d key = Some v)"
  by (simp add: contains_def)

lemma RouteMapTree_writeback:
  "map_of (children cur) key = Some child \<Longrightarrow>
   RouteMapTree (AList.update key child (children cur)) (data cur) = cur"
  by (simp add: AList.update_triv)

text \<open>One iteration of the loop, in each of its three branches.\<close>

lemma traverse_loop_exact:
  assumes "map_of (children cur) component = Some child"
  shows "traverse_loop cur (component # components) path_params scope =
           (case traverse_loop child components path_params scope of
              (res, scope1, child1) \<Rightarrow>
                (res, scope1, RouteMapTree (AList.update component child1 (children cur)) (data cur)))"
  using assms by (simp add: contains_def defaultdict_getitem_def)

lemma traverse_loop_wildcard:
  assumes "map_of (children cur) component = None"
      and "map_of (children cur) ''*'' = Some child"
  shows "traverse_loop cur (component # components) path_params scope =
           (case traverse_loop child components (path_params @ [component]) scope of
              (res, scope1, child1) \<Rightarrow>
                (res, scope1, RouteMapTree (AList.update ''*'' child1 (children cur)) (data cur)))"
  using assms by (simp add: contains_def defaultdict_getitem_def)

lemma traverse_loop_fallback:
  assumes "map_of (children cur) component = None"
      and "map_of (children cur) ''*'' = None"
  shows "traverse_loop cur (component # components) path_params scope =
           (case data cur of
              None \<Rightarrow> (Inl (NotFoundException []), scope, cur)
            | Some d \<Rightarrow>
                if static_path d \<noteq> [] then
                  traverse_loop cur components path_params
                    (if static_path d \<noteq> ''/''
                     then scope\<lparr>scope_path := replace (scope_path scope) (static_path d) []\<rparr>
                     else scope)
                else (Inl (NotFoundException []), scope, cur))"
  using assms by (simp add: contains_def)

declare traverse_loop.simps(2) [simp del]

lemma traverse_loop_exact_found:
  assumes "map_of (children cur) component = Some child"
  shows "fst (traverse_loop cur (component # components) path_params scope) =
           fst (traverse_loop child components path_params scope)"
    and "fst (snd (traverse_loop cur (component # components) path_params scope)) =
           fst (snd (traverse_loop child components path_params scope))"
  using assms by (simp_all add: traverse_loop_exact case_prod_beta)

lemma traverse_loop_wildcard_found:
  assumes "map_of (children cur) component = None"
      and "map_of (children cur) ''*'' = Some child"
  shows "fst (traverse_loop cur (component # components) path_params scope) =
           fst (traverse_loop child components (path_params @ [component]) scope)"
    and "fst (snd (traverse_loop cur (component # components) path_params scope)) =
           fst (snd (traverse_loop child components (path_params @ [component]) scope))"
  using assms by (simp_all add: traverse_loop_wildcard case_prod_beta)

lemma step_cases [case_names exact wildcard mount not_found]:
  obtains child where "map_of (children cur) component = Some child"
  | child where "map_of (children cur) component = None"
      and "map_of (children cur) ''*'' = Some child"
  | d where "map_of (children cur) component = None"
      and "map_of (children cur) ''*'' = None"
      and "data cur = Some d" and "static_path d \<noteq> []"
  | "map_of (children cur) component = None"
      and "map_of (children cur) ''*'' = None"
      and "\<forall>d. data cur = Some d \<longrightarrow> static_path d = []"
  by (cases "map_of (children cur) component"; cases "map_of (children cur) ''*''";
      cases "data cur") auto

lemma traverse_loop_mount:
  assumes "map_of (children cur) component = None"
      and "map_of (children cur) ''*'' = None"
      and "data cur = Some d" and "static_path d \<noteq> []"
  shows "traverse_loop cur (component # components) path_params scope =
           traverse_loop cur components path_params
             (if static_path d \<noteq> ''/''
              then scope\<lparr>scope_path := replace (scope_path scope) (static_path d) []\<rparr>
              else scope)"
  using assms by (simp add: traverse_loop_fallback)

lemma traverse_loop_not_found:
  assumes "map_of (children cur) component = None"
      and "map_of (children cur) ''*'' = None"
      and "\<forall>d. data cur = Some d \<longrightarrow> static_path d = []"
  shows "traverse_loop cur (component # components) path_params scope =
           (Inl (NotFoundException []), scope, cur)"
  using assms by (simp add: traverse_loop_fallback split: option.split)

text \<open>
  The traversal reads nothing of the scope: its result is the same for every scope. It
  writes only \<^verbatim>\<open>scope["path"]\<close>, and the only exception it raises is
  \<^verbatim>\<open>NotFoundException()\<close>.
\<close>

lemma traverse_loop_result_indep:
  "fst (traverse_loop cur components path_params scope) =
   fst (traverse_loop cur components path_params scope')"
proof (induction components arbitrary: cur path_params scope scope')
  case Nil
  show ?case by simp
next
  case (Cons component components)
  show ?case
  proof (cases rule: step_cases [of cur component])
    case (exact child)
    with Cons.IH [of child path_params scope scope'] show ?thesis
      by (simp add: traverse_loop_exact_found)
  next
    case (wildcard child)
    with Cons.IH [of child "path_params @ [component]" scope scope'] show ?thesis
      by (simp add: traverse_loop_wildcard_found)
  next
    case (mount d)
    let ?scope1 = "if static_path d \<noteq> ''/''
            then scope\<lparr>scope_path := replace (scope_path scope) (static_path d) []\<rparr>
            else scope"
    let ?scope2 = "if static_path d \<noteq> ''/''
            then scope'\<lparr>scope_path := replace (scope_path scope') (static_path d) []\<rparr>
            else scope'"
    have "traverse_loop cur (component # components) path_params scope =
            traverse_loop cur components path_params ?scope1"
      and "traverse_loop cur (component # components) path_params scope' =
            traverse_loop cur components path_params ?scope2"
      using mount by (rule traverse_loop_mount)+
    with Cons.IH [of cur path_params ?scope1 ?scope2] show ?thesis by simp
  next
    case not_found
    then show ?thesis by (simp add: traverse_loop_not_found)
  qed
qed

lemma traverse_loop_scope:
  "\<exists>p. fst (snd (traverse_loop cur components path_params scope)) = scope\<lparr>scope_path := p\<rparr>"
proof (induction components arbitrary: cur path_params scope)
  case Nil
  have "scope = scope\<lparr>scope_path := scope_path scope\<rparr>" by simp
  then have "fst (snd (traverse_loop cur [] path_params scope)) =
               scope\<lparr>scope_path := scope_path scope\<rparr>" by simp
  then show ?case by (rule exI)
next
  case (Cons component components)
  show ?case
  proof (cases rule: step_cases [of cur component])
    case (exact child)
    with Cons.IH [of child path_params scope] show ?thesis
      by (simp add: traverse_loop_exact_found)
  next
    case (wildcard child)
    with Cons.IH [of child "path_params @ [component]" scope] show ?thesis
      by (simp add: traverse_loop_wildcard_found)
  next
    case (mount d)
    let ?scope' = "if static_path d \<noteq> ''/''
            then scope\<lparr>scope_path := replace (scope_path scope) (static_path d) []\<rparr>
            else scope"
    have step: "traverse_loop cur (component # components) path_params scope =
            traverse_loop cur components path_params ?scope'"
      using mount by (rule traverse_loop_mount)
    from Cons.IH [of cur path_params ?scope'] obtain p
      where "fst (snd (traverse_loop cur components path_params ?scope')) =
               ?scope'\<lparr>scope_path := p\<rparr>" by blast
    moreover have "?scope'\<lparr>scope_path := p\<rparr> = scope\<lparr>scope_path := p\<rparr>" by simp
    ultimately have "fst (snd (traverse_loop cur (component # components) path_params scope)) =
        scope\<lparr>scope_path := p\<rparr>"
      using step by simp
    then show ?thesis by (rule exI)
  next
    case not_found
    then have "fst (snd (traverse_loop cur (component # components) path_params scope)) =
        scope\<lparr>scope_path := scope_path scope\<rparr>"
      by (simp add: traverse_loop_not_found)
    then show ?thesis by (rule exI)
  qed
qed

lemma traverse_loop_raises:
  "fst (traverse_loop cur components path_params scope) = Inl e \<Longrightarrow> e = NotFoundException []"
proof (induction components arbitrary: cur path_params scope)
  case Nil
  then show ?case by simp
next
  case (Cons component components)
  show ?case
  proof (cases rule: step_cases [of cur component])
    case (exact child)
    with Cons.prems Cons.IH [of child path_params scope] show ?thesis
      by (simp add: traverse_loop_exact_found)
  next
    case (wildcard child)
    with Cons.prems Cons.IH [of child "path_params @ [component]" scope] show ?thesis
      by (simp add: traverse_loop_wildcard_found)
  next
    case (mount d)
    let ?scope' = "if static_path d \<noteq> ''/''
            then scope\<lparr>scope_path := replace (scope_path scope) (static_path d) []\<rparr>
            else scope"
    have "traverse_loop cur (component # components) path_params scope =
            traverse_loop cur components path_params ?scope'"
      using mount by (rule traverse_loop_mount)
    with Cons.prems have "fst (traverse_loop cur components path_params ?scope') = Inl e"
      by simp
    then show ?thesis by (rule Cons.IH)
  next
    case not_found
    with Cons.prems show ?thesis by (simp add: traverse_loop_not_found)
  qed
qed

text \<open>The route map after a traversal is the route map before it.\<close>

lemma traverse_loop_frame:
  "snd (snd (traverse_loop cur components path_params scope)) = cur"
proof (induction components arbitrary: cur path_params scope)
  case Nil
  show ?case by simp
next
  case (Cons component components)
  show ?case
  proof (cases "map_of (children cur) component")
    case (Some child)
    obtain res scope1 child1
      where run: "traverse_loop child components path_params scope = (res, scope1, child1)"
      by (cases "traverse_loop child components path_params scope") auto
    with Cons.IH [of child path_params scope] have "child1 = child" by simp
    with Some run show ?thesis
      by (simp add: traverse_loop_exact RouteMapTree_writeback)
  next
    case None
    show ?thesis
    proof (cases "map_of (children cur) ''*''")
      case (Some child)
      obtain res scope1 child1
        where run: "traverse_loop child components (path_params @ [component]) scope =
                      (res, scope1, child1)"
        by (cases "traverse_loop child components (path_params @ [component]) scope") auto
      with Cons.IH [of child "path_params @ [component]" scope] have "child1 = child" by simp
      with None Some run show ?thesis
        by (simp add: traverse_loop_wildcard RouteMapTree_writeback)
    next
      case no_wildcard: None
      with None Cons.IH show ?thesis
        by (simp add: traverse_loop_fallback split: option.split)
    qed
  qed
qed

lemma traverse_route_map_frame:
  "snd (snd (traverse_route_map self pth scope)) = self"
proof -
  obtain res scope1 tree1
    where run: "traverse_loop (tree self) (components_of pth) [] scope = (res, scope1, tree1)"
    by (cases "traverse_loop (tree self) (components_of pth) [] scope") auto
  with traverse_loop_frame [of "tree self" "components_of pth" "[]" scope]
  have "tree1 = tree self" by simp
  with run show ?thesis by (simp add: traverse_route_map_def)
qed

lemma find_node_frame:
  "snd (snd (find_node self pth scope)) = self"
proof (cases "map_of (plain_routes self) pth")
  case None
  then show ?thesis
    by (simp add: find_node_def contains_def traverse_route_map_frame)
next
  case (Some cur)
  then show ?thesis
    by (simp add: find_node_def contains_def defaultdict_getitem_present)
qed

lemma resolve_route_frame:
  "snd (snd (resolve_route parse_path_params self scope)) = self"
proof -
  obtain res scope1 self1
    where run: "find_node self (request_path (scope_path scope)) scope = (res, scope1, self1)"
    by (cases "find_node self (request_path (scope_path scope)) scope") auto
  with find_node_frame [of self "request_path (scope_path scope)" scope]
  have "self1 = self" by simp
  with run show ?thesis
    by (simp add: resolve_route_def split: sum.split prod.split)
qed

text \<open>
  Claim C6. Resolution never changes the route map: after \<^verbatim>\<open>resolve_route\<close> and after
  \<^verbatim>\<open>_traverse_route_map\<close>, whether they return or raise, the tree and the plain routes are
  what they were before the call. Every access \<^verbatim>\<open>d[key]\<close> to one of the
  \<^verbatim>\<open>defaultdict\<close>s is guarded by \<^verbatim>\<open>key in d\<close>, so no child is created, and no leaf data
  is written.
\<close>

theorem C6_resolution_leaves_route_map_unchanged:
  "snd (snd (resolve_route parse_path_params self scope)) = self \<and>
   snd (snd (traverse_route_map self pth scope)) = self"
  by (simp add: resolve_route_frame traverse_route_map_frame)

subsection \<open>The descent\<close>





subsection \<open>Finding the node and choosing the handler\<close>

lemma find_node_plain:
  assumes "map_of (plain_routes self) pth = Some cur"
  shows "find_node self pth scope = (Inr (cur, []), scope, self)"
  using assms by (simp add: find_node_def contains_def defaultdict_getitem_present)

lemma find_node_tree:
  assumes "map_of (plain_routes self) pth = None"
  shows "fst (find_node self pth scope) =
           fst (traverse_loop (tree self) (components_of pth) [] scope)"
    and "fst (snd (find_node self pth scope)) =
           fst (snd (traverse_loop (tree self) (components_of pth) [] scope))"
  using assms
  by (simp_all add: find_node_def contains_def traverse_route_map_def case_prod_beta)

lemma find_node_result_indep:
  "fst (find_node self pth scope) = fst (find_node self pth scope')"
proof (cases "map_of (plain_routes self) pth")
  case None
  then show ?thesis
    using traverse_loop_result_indep [of "tree self" "components_of pth" "[]" scope scope']
    by (simp add: find_node_tree)
next
  case (Some cur)
  then show ?thesis by (simp add: find_node_plain)
qed

lemma find_node_scope:
  "\<exists>p. fst (snd (find_node self pth scope)) = scope\<lparr>scope_path := p\<rparr>"
proof (cases "map_of (plain_routes self) pth")
  case None
  then show ?thesis
    using traverse_loop_scope [of "tree self" "components_of pth" "[]" scope]
    by (simp add: find_node_tree)
next
  case (Some cur)
  have "scope = scope\<lparr>scope_path := scope_path scope\<rparr>" by simp
  with Some have "fst (snd (find_node self pth scope)) = scope\<lparr>scope_path := scope_path scope\<rparr>"
    by (simp add: find_node_plain)
  then show ?thesis by (rule exI)
qed

lemma find_node_raises:
  assumes "fst (find_node self pth scope) = Inl e"
  shows "e = NotFoundException []"
proof (cases "map_of (plain_routes self) pth")
  case None
  with assms have "fst (traverse_loop (tree self) (components_of pth) [] scope) = Inl e"
    by (simp add: find_node_tree)
  then show ?thesis by (rule traverse_loop_raises)
next
  case (Some cur)
  with assms show ?thesis by (simp add: find_node_plain)
qed

text \<open>\<^verbatim>\<open>resolve_route\<close> in terms of its two halves.\<close>

lemma resolve_route_not_found:
  assumes "fst (find_node self (request_path (scope_path scope)) scope) = Inl e"
  shows "fst (resolve_route parse_path_params self scope) = Inl e"
  using assms
  by (cases "find_node self (request_path (scope_path scope)) scope")
     (simp add: resolve_route_def)

lemma resolve_route_found:
  assumes "fst (find_node self (request_path (scope_path scope)) scope) = Inr (cur, path_params)"
  shows "fst (resolve_route parse_path_params self scope) =
           fst (dispatch parse_path_params cur path_params
                 (fst (snd (find_node self (request_path (scope_path scope)) scope))))"
    and "fst (snd (resolve_route parse_path_params self scope)) =
           snd (dispatch parse_path_params cur path_params
                 (fst (snd (find_node self (request_path (scope_path scope)) scope))))"
  using assms
  by (cases "find_node self (request_path (scope_path scope)) scope";
      simp add: resolve_route_def case_prod_beta)+

text \<open>
  The choice of the handler reads the type and the method of the scope and nothing else
  of it.
\<close>

lemma dispatch_path_indep:
  "fst (dispatch parse_path_params cur path_params (scope\<lparr>scope_path := p\<rparr>)) =
   fst (dispatch parse_path_params cur path_params scope)"
  by (simp add: dispatch_def Let_def split: option.split sum.split parser_failure.split)

lemma dispatch_params_path_indep:
  "scope_path_params (snd (dispatch parse_path_params cur path_params (scope\<lparr>scope_path := p\<rparr>))) =
   scope_path_params (snd (dispatch parse_path_params cur path_params scope))"
  by (simp add: dispatch_def Let_def split: option.split sum.split parser_failure.split)

lemma resolve_route_dispatch:
  assumes "fst (find_node self (request_path (scope_path scope)) scope) = Inr (cur, path_params)"
  shows "fst (resolve_route parse_path_params self scope) =
           fst (dispatch parse_path_params cur path_params scope)"
proof -
  obtain p where "fst (snd (find_node self (request_path (scope_path scope)) scope)) =
      scope\<lparr>scope_path := p\<rparr>"
    using find_node_scope by blast
  with assms show ?thesis
    by (simp add: resolve_route_found dispatch_path_indep)
qed

lemma dispatch_leaf:
  assumes "data cur = Some d"
      and "parse_path_params (path_parameters d) path_params = Inr parsed"
  shows "fst (dispatch parse_path_params cur path_params scope) =
           (if is_asgi d then
              (case map_of (asgi_handlers d) ScopeType_ASGI of
                 None \<Rightarrow> Inl (NotFoundException []) | Some h \<Rightarrow> Inr h)
            else if scope_type scope = ScopeType_HTTP then
              (case scope_method scope of
                 None \<Rightarrow> Inl (NotFoundException [])
               | Some method \<Rightarrow>
                   (case map_of (asgi_handlers d) method of
                      None \<Rightarrow> Inl (MethodNotAllowedException []) | Some h \<Rightarrow> Inr h))
            else
              (case map_of (asgi_handlers d) ScopeType_WEBSOCKET of
                 None \<Rightarrow> Inl (NotFoundException []) | Some h \<Rightarrow> Inr h))"
  using assms by (simp add: dispatch_def Let_def split: option.split)

lemma dispatch_method_not_allowed:
  assumes "fst (dispatch parse_path_params cur path_params scope) =
             Inl (MethodNotAllowedException args)"
  shows "\<exists>d method. data cur = Some d \<and> \<not> is_asgi d \<and> scope_type scope = ScopeType_HTTP \<and>
           scope_method scope = Some method \<and> map_of (asgi_handlers d) method = None \<and>
           args = []"
  using assms
  by (auto simp add: dispatch_def Let_def
        split: option.splits sum.splits parser_failure.splits if_splits)

subsection \<open>Errors of the dispatch\<close>

text \<open>
  Claim C4, as it is stated, fails: the exception is raised as
  \<^verbatim>\<open>MethodNotAllowedException()\<close>, without arguments, so it does not carry the methods of
  the leaf. Here \<^verbatim>\<open>/items\<close> has a handler for GET only and the request is a POST.
\<close>

theorem C4_no_allowed_methods_counterexample:
  "fst (resolve_route example_parser example_map (http_scope ''/items'' ''POST'')) =
     Inl (MethodNotAllowedException []) \<and>
   map_of (plain_routes example_map) ''/items'' =
     Some (RouteMapTree []
             (Some \<lparr>path_parameters = [], asgi_handlers = [(''GET'', ''list_items'')],
                    is_asgi = False, static_path = []\<rparr>))"
  by code_simp

text \<open>
  Claim C4, amended. When the path leads to a leaf that is not marked \<^verbatim>\<open>is_asgi\<close>, the
  parameters parse, and the scope is an HTTP scope with a method: if the method is not a
  key of the handlers of the leaf, \<^verbatim>\<open>resolve_route\<close> raises
  \<^verbatim>\<open>MethodNotAllowedException\<close> (not \<^verbatim>\<open>NotFoundException\<close>), constructed without
  arguments; if it is a key, the handler stored under it is returned.
\<close>

theorem C4_method_not_allowed:
  assumes "fst (find_node self (request_path (scope_path scope)) scope) = Inr (cur, path_params)"
      and "data cur = Some d" and "\<not> is_asgi d"
      and "parse_path_params (path_parameters d) path_params = Inr parsed"
      and "scope_type scope = ScopeType_HTTP" and "scope_method scope = Some method"
  shows "fst (resolve_route parse_path_params self scope) =
           (case map_of (asgi_handlers d) method of
              None \<Rightarrow> Inl (MethodNotAllowedException [])
            | Some h \<Rightarrow> Inr h)"
  using assms by (simp add: resolve_route_dispatch dispatch_leaf)

theorem C4_method_not_allowed_witness:
  "fst (find_node example_map (request_path (scope_path (http_scope ''/items'' ''POST'')))
         (http_scope ''/items'' ''POST'')) =
     Inr (RouteMapTree []
            (Some \<lparr>path_parameters = [], asgi_handlers = [(''GET'', ''list_items'')],
                   is_asgi = False, static_path = []\<rparr>), []) \<and>
   fst (resolve_route example_parser example_map (http_scope ''/items'' ''POST'')) =
     Inl (MethodNotAllowedException []) \<and>
   fst (resolve_route example_parser example_map (http_scope ''/items'' ''GET'')) =
     Inr ''list_items''"
proof -
  let ?d = "\<lparr>path_parameters = [], asgi_handlers = [(''GET'', ''list_items'')],
             is_asgi = False, static_path = []\<rparr> :: string RouteMapLeafData"
  let ?cur = "RouteMapTree [] (Some ?d)"
  have found: "fst (find_node example_map (request_path (scope_path (http_scope ''/items'' m)))
         (http_scope ''/items'' m)) = Inr (?cur, [])" for m
    by (simp add: find_node_result_indep [of _ _ "http_scope ''/items'' m" "http_scope [] []"]
          http_scope_def) code_simp
  have leaf: "data ?cur = Some ?d" "\<not> is_asgi ?d" by simp_all
  have parsed: "example_parser (path_parameters ?d) [] = Inr []"
    by (simp add: example_parser_def)
  have http: "scope_type (http_scope ''/items'' m) = ScopeType_HTTP"
    "scope_method (http_scope ''/items'' m) = Some m" for m
    by (simp_all add: http_scope_def)
  from C4_method_not_allowed
    [where scope = "http_scope ''/items'' ''POST''" and parse_path_params = example_parser,
     OF found leaf parsed http]
  have post: "fst (resolve_route example_parser example_map (http_scope ''/items'' ''POST'')) =
     Inl (MethodNotAllowedException [])" by simp
  from C4_method_not_allowed
    [where scope = "http_scope ''/items'' ''GET''" and parse_path_params = example_parser,
     OF found leaf parsed http]
  have get: "fst (resolve_route example_parser example_map (http_scope ''/items'' ''GET'')) =
     Inr ''list_items''" by simp
  from found [of "''POST''"] post get show ?thesis by blast
qed

text \<open>
  Claim C10. On a leaf reached by the path, with parameters that parse: a leaf marked
  \<^verbatim>\<open>is_asgi\<close> without a handler under the ASGI key, and a leaf not so marked without a
  handler under the WebSocket key when the scope is not an HTTP scope, both end in
  \<^verbatim>\<open>NotFoundException\<close>, the \<^verbatim>\<open>KeyError\<close> of the lookup being turned into it. Whenever
  \<^verbatim>\<open>resolve_route\<close> raises \<^verbatim>\<open>MethodNotAllowedException\<close>, the path has led to a leaf that
  is not marked \<^verbatim>\<open>is_asgi\<close>, the scope is an HTTP scope, and its method is not a key of the
  handlers of that leaf.
\<close>

theorem C10_key_errors_are_not_found:
  "(fst (find_node self (request_path (scope_path scope)) scope) = Inr (cur, path_params) \<and>
    data cur = Some d \<and> parse_path_params (path_parameters d) path_params = Inr parsed \<and>
    is_asgi d \<and> map_of (asgi_handlers d) ScopeType_ASGI = None \<longrightarrow>
      fst (resolve_route parse_path_params self scope) = Inl (NotFoundException [])) \<and>
   (fst (find_node self (request_path (scope_path scope)) scope) = Inr (cur, path_params) \<and>
    data cur = Some d \<and> parse_path_params (path_parameters d) path_params = Inr parsed \<and>
    \<not> is_asgi d \<and> scope_type scope \<noteq> ScopeType_HTTP \<and>
    map_of (asgi_handlers d) ScopeType_WEBSOCKET = None \<longrightarrow>
      fst (resolve_route parse_path_params self scope) = Inl (NotFoundException [])) \<and>
   (fst (resolve_route parse_path_params self scope) = Inl (MethodNotAllowedException args) \<longrightarrow>
      (\<exists>cur' path_params' d' method.
         fst (find_node self (request_path (scope_path scope)) scope) = Inr (cur', path_params') \<and>
         data cur' = Some d' \<and> \<not> is_asgi d' \<and> scope_type scope = ScopeType_HTTP \<and>
         scope_method scope = Some method \<and> map_of (asgi_handlers d') method = None))"
proof (intro conjI impI)
  assume "fst (find_node self (request_path (scope_path scope)) scope) = Inr (cur, path_params) \<and>
    data cur = Some d \<and> parse_path_params (path_parameters d) path_params = Inr parsed \<and>
    is_asgi d \<and> map_of (asgi_handlers d) ScopeType_ASGI = None"
  then show "fst (resolve_route parse_path_params self scope) = Inl (NotFoundException [])"
    by (simp add: resolve_route_dispatch dispatch_leaf)
next
  assume "fst (find_node self (request_path (scope_path scope)) scope) = Inr (cur, path_params) \<and>
    data cur = Some d \<and> parse_path_params (path_parameters d) path_params = Inr parsed \<and>
    \<not> is_asgi d \<and> scope_type scope \<noteq> ScopeType_HTTP \<and>
    map_of (asgi_handlers d) ScopeType_WEBSOCKET = None"
  then show "fst (resolve_route parse_path_params self scope) = Inl (NotFoundException [])"
    by (simp add: resolve_route_dispatch dispatch_leaf)
next
  assume raised: "fst (resolve_route parse_path_params self scope) =
    Inl (MethodNotAllowedException args)"
  show "\<exists>cur' path_params' d' method.
         fst (find_node self (request_path (scope_path scope)) scope) = Inr (cur', path_params') \<and>
         data cur' = Some d' \<and> \<not> is_asgi d' \<and> scope_type scope = ScopeType_HTTP \<and>
         scope_method scope = Some method \<and> map_of (asgi_handlers d') method = None"
  proof (cases "fst (find_node self (request_path (scope_path scope)) scope)")
    case (Inl e)
    then have "fst (resolve_route parse_path_params self scope) = Inl e"
      by (rule resolve_route_not_found)
    moreover from Inl have "e = NotFoundException []" by (rule find_node_raises)
    ultimately show ?thesis using raised by simp
  next
    case (Inr found)
    obtain cur' path_params' where found: "found = (cur', path_params')" by (cases found)
    with Inr have node:
      "fst (find_node self (request_path (scope_path scope)) scope) = Inr (cur', path_params')"
      by simp
    then have "fst (dispatch parse_path_params cur' path_params' scope) =
        Inl (MethodNotAllowedException args)"
      using raised by (simp add: resolve_route_dispatch)
    from dispatch_method_not_allowed [OF this] node show ?thesis by blast
  qed
qed

theorem C10_key_errors_are_not_found_witness:
  "fst (resolve_route example_parser shadowed_map (http_scope ''/static'' ''GET'')) =
     Inl (NotFoundException []) \<and>
   fst (resolve_route example_parser example_map (websocket_scope ''/items'')) =
     Inl (NotFoundException []) \<and>
   fst (resolve_route example_parser example_map (http_scope ''/items'' ''POST'')) =
     Inl (MethodNotAllowedException []) \<and>
   (\<exists>cur path_params d method.
      fst (find_node example_map (request_path (scope_path (http_scope ''/items'' ''POST'')))
            (http_scope ''/items'' ''POST'')) = Inr (cur, path_params) \<and>
      data cur = Some d \<and> \<not> is_asgi d \<and>
      scope_type (http_scope ''/items'' ''POST'') = ScopeType_HTTP \<and>
      scope_method (http_scope ''/items'' ''POST'') = Some method \<and>
      map_of (asgi_handlers d) method = None)"
proof -
  let ?mounted = "\<lparr>path_parameters = [], asgi_handlers = [(''GET'', ''index'')],
             is_asgi = True, static_path = ''/static''\<rparr> :: string RouteMapLeafData"
  let ?items = "\<lparr>path_parameters = [], asgi_handlers = [(''GET'', ''list_items'')],
             is_asgi = False, static_path = []\<rparr> :: string RouteMapLeafData"
  have "fst (find_node shadowed_map (request_path (scope_path (http_scope ''/static'' ''GET'')))
           (http_scope ''/static'' ''GET'')) = Inr (RouteMapTree [] (Some ?mounted), [])"
    by code_simp
  moreover have "example_parser (path_parameters ?mounted) [] = Inr []"
    by (simp add: example_parser_def)
  moreover have "map_of (asgi_handlers ?mounted) ScopeType_ASGI = None"
    by (simp add: ScopeType_ASGI_def)
  ultimately have mount:
    "fst (resolve_route example_parser shadowed_map (http_scope ''/static'' ''GET'')) =
       Inl (NotFoundException [])"
    using C10_key_errors_are_not_found
      [where self = shadowed_map and scope = "http_scope ''/static'' ''GET''"
         and cur = "RouteMapTree [] (Some ?mounted)" and path_params = "[]" and d = ?mounted
         and parse_path_params = example_parser and parsed = "[]"]
    by simp
  have "fst (find_node example_map (request_path (scope_path (websocket_scope ''/items'')))
           (websocket_scope ''/items'')) = Inr (RouteMapTree [] (Some ?items), [])"
    by code_simp
  moreover have "example_parser (path_parameters ?items) [] = Inr []"
    by (simp add: example_parser_def)
  moreover have "map_of (asgi_handlers ?items) ScopeType_WEBSOCKET = None"
    by (simp add: ScopeType_WEBSOCKET_def)
  moreover have "scope_type (websocket_scope ''/items'') \<noteq> ScopeType_HTTP"
    by (simp add: websocket_scope_def ScopeType_WEBSOCKET_def ScopeType_HTTP_def)
  ultimately have websocket:
    "fst (resolve_route example_parser example_map (websocket_scope ''/items'')) =
       Inl (NotFoundException [])"
    using C10_key_errors_are_not_found
      [where self = example_map and scope = "websocket_scope ''/items''"
         and cur = "RouteMapTree [] (Some ?items)" and path_params = "[]" and d = ?items
         and parse_path_params = example_parser and parsed = "[]"]
    by simp
  have post: "fst (resolve_route example_parser example_map (http_scope ''/items'' ''POST'')) =
     Inl (MethodNotAllowedException [])"
    by code_simp
  from post C10_key_errors_are_not_found
      [where self = example_map and scope = "http_scope ''/items'' ''POST''"
         and parse_path_params = example_parser and args = "[]"]
  have reserved: "\<exists>cur path_params d method.
      fst (find_node example_map (request_path (scope_path (http_scope ''/items'' ''POST'')))
            (http_scope ''/items'' ''POST'')) = Inr (cur, path_params) \<and>
      data cur = Some d \<and> \<not> is_asgi d \<and>
      scope_type (http_scope ''/items'' ''POST'') = ScopeType_HTTP \<and>
      scope_method (http_scope ''/items'' ''POST'') = Some method \<and>
      map_of (asgi_handlers d) method = None"
    by blast
  from mount websocket post reserved show ?thesis by blast
qed

subsection \<open>The path that is looked up\<close>

lemma dropWhile_rev_dropWhile:
  "dropWhile P (rev (dropWhile P (rev (dropWhile P s)))) = rev (dropWhile P (rev (dropWhile P s)))"
proof (cases "dropWhile P (rev (dropWhile P s)) = []")
  case True
  have "dropWhile P (rev []) = rev []" by simp
  with True show ?thesis by (simp only:)
next
  case False
  define t where "t = dropWhile P s"
  have "t \<noteq> []"
  proof
    assume "t = []"
    then have "dropWhile P (rev t) = []" by simp
    with False show False unfolding t_def by blast
  qed
  then have "\<not> P (hd t)" unfolding t_def by (rule hd_dropWhile)
  have "\<exists>u. rev t = u @ dropWhile P (rev t)"
    by (metis takeWhile_dropWhile_id)
  then obtain u where "rev t = u @ dropWhile P (rev t)" ..
  then have "t = rev (dropWhile P (rev t)) @ rev u"
    by (metis rev_append rev_rev_ident)
  with False have "hd (rev (dropWhile P (rev t))) = hd t"
    by (metis hd_append2 rev_is_Nil_conv t_def)
  with \<open>\<not> P (hd t)\<close> have "\<not> P (hd (rev (dropWhile P (rev t))))" by simp
  then show ?thesis
    unfolding t_def by (simp add: dropWhile_eq_self_iff)
qed

lemma strip_strip: "strip (strip s) = strip s"
  by (simp add: strip_def dropWhile_rev_dropWhile)

lemma request_path_strip: "request_path (strip raw) = request_path raw"
  by (simp add: request_path_def strip_strip)


text \<open>
  Of the path in the scope, \<^verbatim>\<open>resolve_route\<close> uses the path that is looked up and nothing
  else, for what it returns or raises and for the parameters it writes.
\<close>

lemma dispatch_params_leaf:
  "scope_path_params (snd (dispatch parse_path_params cur path_params scope)) =
     (case data cur of
        None \<Rightarrow> scope_path_params scope
      | Some d \<Rightarrow>
          (case parse_path_params (path_parameters d) path_params of
             Inl e \<Rightarrow> scope_path_params scope
           | Inr parsed \<Rightarrow> Some parsed))"
  by (simp add: dispatch_def Let_def split: option.split sum.split parser_failure.split)

lemma resolve_route_same_lookup:
  assumes "request_path q = request_path (scope_path scope)"
  shows "fst (resolve_route parse_path_params self (scope\<lparr>scope_path := q\<rparr>)) =
           fst (resolve_route parse_path_params self scope)"
    and "scope_path_params (fst (snd (resolve_route parse_path_params self (scope\<lparr>scope_path := q\<rparr>)))) =
           scope_path_params (fst (snd (resolve_route parse_path_params self scope)))"
proof -
  let ?pth = "request_path (scope_path scope)"
  let ?scope' = "scope\<lparr>scope_path := q\<rparr>"
  have same: "fst (find_node self ?pth ?scope') = fst (find_node self ?pth scope)"
    by (rule find_node_result_indep)
  obtain p where after: "fst (snd (find_node self ?pth scope)) = scope\<lparr>scope_path := p\<rparr>"
    using find_node_scope by blast
  obtain p' where after': "fst (snd (find_node self ?pth ?scope')) = ?scope'\<lparr>scope_path := p'\<rparr>"
    using find_node_scope by blast
  have lookup': "request_path (scope_path ?scope') = ?pth" using assms by simp
  show "fst (resolve_route parse_path_params self ?scope') =
           fst (resolve_route parse_path_params self scope)"
  proof (cases "fst (find_node self ?pth scope)")
    case (Inl e)
    with same lookup' show ?thesis
      by (simp add: resolve_route_not_found)
  next
    case (Inr found)
    obtain cur path_params where "found = (cur, path_params)" by (cases found)
    with Inr same lookup' show ?thesis
      by (simp add: resolve_route_dispatch dispatch_path_indep)
  qed
  show "scope_path_params (fst (snd (resolve_route parse_path_params self ?scope'))) =
           scope_path_params (fst (snd (resolve_route parse_path_params self scope)))"
  proof (cases "fst (find_node self ?pth scope)")
    case (Inl e)
    with same lookup' have "fst (find_node self (request_path (scope_path ?scope')) ?scope') = Inl e"
      by simp
    with Inl after after' lookup' show ?thesis
      by (cases "find_node self ?pth scope"; cases "find_node self ?pth ?scope'")
         (simp add: resolve_route_def)
  next
    case (Inr found)
    obtain cur path_params where "found = (cur, path_params)" by (cases found)
    with Inr same lookup' after after' show ?thesis
      by (simp add: resolve_route_found dispatch_params_leaf split: option.split sum.split)
  qed
qed

text \<open>What \<^verbatim>\<open>strip\<close> removes: whitespace around a string leaves its stripped form as it is,
  and the stripped form neither begins nor ends with whitespace.\<close>

lemma strip_surrounding_whitespace:
  assumes "\<forall>c \<in> set before. isspace c" and "\<forall>c \<in> set after. isspace c"
  shows "strip (before @ p @ after) = strip p"
proof -
  from assms(1) have left: "dropWhile isspace (before @ p @ after) = dropWhile isspace (p @ after)"
    by (simp add: dropWhile_append2)
  show ?thesis
  proof (cases "\<forall>c \<in> set p. isspace c")
    case True
    with assms(2) have "dropWhile isspace (p @ after) = []" by auto
    with left have "dropWhile isspace (before @ p @ after) = []" by (simp only:)
    then have "strip (before @ p @ after) = []" unfolding strip_def by (simp only:) simp
    moreover from True have "dropWhile isspace p = []" by auto
    then have "strip p = []" unfolding strip_def by (simp only:) simp
    ultimately show ?thesis by simp
  next
    case False
    then obtain c where "c \<in> set p" "\<not> isspace c" by blast
    then have "dropWhile isspace (p @ after) = dropWhile isspace p @ after"
      by (rule dropWhile_append1)
    moreover have "dropWhile isspace (rev after @ rev (dropWhile isspace p)) =
          dropWhile isspace (rev (dropWhile isspace p))"
      using assms(2) by (intro dropWhile_append2) simp
    ultimately show ?thesis using left by (simp add: strip_def)
  qed
qed

lemma strip_ends:
  "strip raw = [] \<or> (\<not> isspace (hd (strip raw)) \<and> \<not> isspace (last (strip raw)))"
proof (cases "strip raw = []")
  case True
  then show ?thesis by simp
next
  case False
  have "dropWhile isspace (strip raw) = strip raw"
    by (simp add: strip_def dropWhile_rev_dropWhile)
  with False have first: "\<not> isspace (hd (strip raw))"
    by (simp add: dropWhile_eq_self_iff)
  from False have "dropWhile isspace (rev (dropWhile isspace raw)) \<noteq> []"
    by (simp add: strip_def)
  then have "\<not> isspace (hd (dropWhile isspace (rev (dropWhile isspace raw))))"
    by (rule hd_dropWhile)
  with False have "\<not> isspace (last (strip raw))"
    by (simp add: strip_def last_rev)
  with first show ?thesis by simp
qed

text \<open>
  Claim C9. The raw path is stripped of leading and trailing whitespace first: the path
  that is looked up is the rule for the trailing slash applied to the stripped path, and
  the stripped path neither begins nor ends with whitespace. So whitespace before and
  after a path does not change the path that is looked up: the request with the
  whitespace and the request without it are resolved alike, with the same result or
  exception and the same \<^verbatim>\<open>path_params\<close>.
\<close>

theorem C9_whitespace_is_stripped_first:
  "request_path raw =
     (if strip raw \<noteq> ''/'' \<and> endswith (strip raw) ''/'' then rstrip (strip raw) ''/''
      else strip raw) \<and>
   (strip raw = [] \<or> (\<not> isspace (hd (strip raw)) \<and> \<not> isspace (last (strip raw)))) \<and>
   ((\<forall>c \<in> set before. isspace c) \<and> (\<forall>c \<in> set after. isspace c) \<longrightarrow>
      strip (before @ p @ after) = strip p \<and>
      request_path (before @ p @ after) = request_path p \<and>
      fst (resolve_route parse_path_params self (scope\<lparr>scope_path := before @ p @ after\<rparr>)) =
        fst (resolve_route parse_path_params self (scope\<lparr>scope_path := p\<rparr>)) \<and>
      scope_path_params
          (fst (snd (resolve_route parse_path_params self
                        (scope\<lparr>scope_path := before @ p @ after\<rparr>)))) =
        scope_path_params
          (fst (snd (resolve_route parse_path_params self (scope\<lparr>scope_path := p\<rparr>)))))"
proof (intro conjI impI)
  show "request_path raw =
     (if strip raw \<noteq> ''/'' \<and> endswith (strip raw) ''/'' then rstrip (strip raw) ''/''
      else strip raw)"
    by (simp add: request_path_def Let_def)
  show "strip raw = [] \<or> (\<not> isspace (hd (strip raw)) \<and> \<not> isspace (last (strip raw)))"
    by (rule strip_ends)
next
  assume "(\<forall>c \<in> set before. isspace c) \<and> (\<forall>c \<in> set after. isspace c)"
  then show stripped: "strip (before @ p @ after) = strip p"
    by (simp add: strip_surrounding_whitespace)
  then show same: "request_path (before @ p @ after) = request_path p"
    by (simp add: request_path_def)
  then have lookup:
    "request_path (before @ p @ after) = request_path (scope_path (scope\<lparr>scope_path := p\<rparr>))"
    by simp
  from resolve_route_same_lookup(1) [OF lookup, of parse_path_params self]
  show "fst (resolve_route parse_path_params self (scope\<lparr>scope_path := before @ p @ after\<rparr>)) =
        fst (resolve_route parse_path_params self (scope\<lparr>scope_path := p\<rparr>))"
    by simp
  from resolve_route_same_lookup(2) [OF lookup, of parse_path_params self]
  show "scope_path_params
          (fst (snd (resolve_route parse_path_params self
                        (scope\<lparr>scope_path := before @ p @ after\<rparr>)))) =
        scope_path_params
          (fst (snd (resolve_route parse_path_params self (scope\<lparr>scope_path := p\<rparr>))))"
    by simp
qed

text \<open>
  The request \<^verbatim>\<open>" /items "\<close> is looked up as \<^verbatim>\<open>/items\<close> and resolved to its handler;
  \<^verbatim>\<open>"/items/ "\<close> loses the blank first and the slash after it.
\<close>

theorem C9_whitespace_is_stripped_first_witness:
  "isspace CHR '' '' \<and>
   strip ('' '' @ ''/items'' @ '' '') = ''/items'' \<and>
   request_path ('' '' @ ''/items'' @ '' '') = ''/items'' \<and>
   fst (resolve_route example_parser example_map (http_scope ('' '' @ ''/items'' @ '' '') ''GET'')) =
     Inr ''list_items'' \<and>
   \<not> isspace (hd (strip '' /items '')) \<and> \<not> isspace (last (strip '' /items '')) \<and>
   request_path ''/items/ '' = ''/items'' \<and>
   fst (resolve_route example_parser example_map (http_scope ''/items/ '' ''GET'')) =
     Inr ''list_items''"
proof -
  have blank: "\<forall>c \<in> set '' ''. isspace c" by (simp add: isspace_def)
  have scopes: "(http_scope q ''GET'')\<lparr>scope_path := q'\<rparr> = http_scope q' ''GET''" for q q'
    by (simp add: http_scope_def)
  note inst =
    C9_whitespace_is_stripped_first
      [where raw = "'' /items ''" and before = "'' ''" and after = "'' ''" and p = "''/items''"
         and parse_path_params = example_parser and self = example_map
         and scope = "http_scope ''/items'' ''GET''", unfolded scopes]
  have plain: "strip ''/items'' = ''/items''" "request_path ''/items'' = ''/items''"
    "fst (resolve_route example_parser example_map (http_scope ''/items'' ''GET'')) =
       Inr ''list_items''"
    by code_simp+
  from inst blank
  have "strip ('' '' @ ''/items'' @ '' '') = strip ''/items''"
    and "request_path ('' '' @ ''/items'' @ '' '') = request_path ''/items''"
    and "fst (resolve_route example_parser example_map (http_scope ('' '' @ ''/items'' @ '' '') ''GET'')) =
       fst (resolve_route example_parser example_map (http_scope ''/items'' ''GET''))"
    by blast+
  with plain
  have around: "strip ('' '' @ ''/items'' @ '' '') = ''/items''"
    "request_path ('' '' @ ''/items'' @ '' '') = ''/items''"
    "fst (resolve_route example_parser example_map (http_scope ('' '' @ ''/items'' @ '' '') ''GET'')) =
       Inr ''list_items''"
    by (simp_all only:)
  have "strip '' /items '' \<noteq> []" by code_simp
  with inst have ends: "\<not> isspace (hd (strip '' /items ''))" "\<not> isspace (last (strip '' /items ''))"
    by blast+
  note inst2 =
    C9_whitespace_is_stripped_first
      [where raw = "''/items/ ''" and before = "[]" and after = "'' ''" and p = "''/items/''"
         and parse_path_params = example_parser and self = example_map
         and scope = "http_scope ''/items'' ''GET''", unfolded scopes]
  have none: "\<forall>c \<in> set ([] :: string). isspace c" by simp
  have slash: "request_path ''/items/'' = ''/items''"
    "fst (resolve_route example_parser example_map (http_scope ''/items/'' ''GET'')) =
       Inr ''list_items''"
    by code_simp+
  from inst2 none blank
  have "request_path ([] @ ''/items/'' @ '' '') = request_path ''/items/''"
    and "fst (resolve_route example_parser example_map (http_scope ([] @ ''/items/'' @ '' '') ''GET'')) =
       fst (resolve_route example_parser example_map (http_scope ''/items/'' ''GET''))"
    by blast+
  with slash
  have "request_path ([] @ ''/items/'' @ '' '') = ''/items''"
    and "fst (resolve_route example_parser example_map (http_scope ([] @ ''/items/'' @ '' '') ''GET'')) =
       Inr ''list_items''"
    by (simp_all only:)
  then have after_slash: "request_path ''/items/ '' = ''/items''"
    "fst (resolve_route example_parser example_map (http_scope ''/items/ '' ''GET'')) =
       Inr ''list_items''"
    by simp_all
  from blank have "isspace CHR '' ''" by simp
  with around ends after_slash show ?thesis by blast
qed

lemma endswith_slash: "endswith s ''/'' \<longleftrightarrow> s \<noteq> [] \<and> last s = CHR ''/''"
proof (cases s rule: rev_cases)
  case Nil
  then show ?thesis by (simp add: endswith_def)
next
  case (snoc xs x)
  then show ?thesis by (auto simp add: endswith_def)
qed

lemma rstrip_not_endswith:
  assumes "\<not> endswith s ''/''"
  shows "rstrip s ''/'' = s"
proof (cases s rule: rev_cases)
  case Nil
  then show ?thesis by (simp add: rstrip_def)
next
  case (snoc xs x)
  with assms have "x \<noteq> CHR ''/''" by (simp add: endswith_slash)
  with snoc show ?thesis by (simp add: rstrip_def)
qed

lemma rstrip_append_slash: "rstrip (p @ ''/'') ''/'' = rstrip p ''/''"
  by (simp add: rstrip_def)

lemma strip_no_whitespace:
  assumes "p \<noteq> []" and "\<not> isspace (hd p)" and "\<not> isspace (last p)"
  shows "strip p = p"
proof -
  from assms have "dropWhile isspace p = p"
    by (simp add: dropWhile_eq_self_iff)
  moreover from assms have "dropWhile isspace (rev p) = rev p"
    by (simp add: dropWhile_eq_self_iff hd_rev)
  ultimately show ?thesis by (simp add: strip_def)
qed

lemma request_path_rstrip:
  "request_path raw = (if strip raw = ''/'' then ''/'' else rstrip (strip raw) ''/'')"
  by (simp add: request_path_def Let_def rstrip_not_endswith)

lemma request_path_append_slash:
  assumes "p \<noteq> []" and "\<not> isspace (hd p)" and "\<not> isspace (last p)" and "p \<noteq> ''/''"
  shows "request_path (p @ ''/'') = request_path p"
proof -
  have "\<not> isspace CHR ''/''" by (simp add: isspace_def)
  with assms have "strip (p @ ''/'') = p @ ''/''"
    by (intro strip_no_whitespace) simp_all
  moreover from assms have "strip p = p" by (intro strip_no_whitespace)
  moreover from assms have "p @ ''/'' \<noteq> ''/''" by simp
  ultimately show ?thesis
    using assms by (simp add: request_path_rstrip rstrip_append_slash)
qed

text \<open>
  Claim C3, as it is stated, fails: \<^verbatim>\<open>rstrip("/")\<close> removes every trailing slash, not one.
  The request \<^verbatim>\<open>/items//\<close> is looked up as \<^verbatim>\<open>/items\<close> and finds the route, where the
  stated rule gives \<^verbatim>\<open>/items/\<close>, which is not a plain route.
\<close>

theorem C3_every_trailing_slash_counterexample:
  "request_path ''/items//'' = ''/items'' \<and>
   strip_single_trailing_slash ''/items//'' = ''/items/'' \<and>
   fst (resolve_route example_parser example_map (http_scope ''/items//'' ''GET'')) =
     Inr ''list_items'' \<and>
   map_of (plain_routes example_map) ''/items/'' = None"
  by code_simp

text \<open>
  Claim C3, amended. The path that is looked up is the raw path without surrounding
  whitespace and then without all of its trailing slashes, except that a stripped path
  equal to \<^verbatim>\<open>/\<close> stays as it is. Consequently, for every path \<open>p\<close> other than \<^verbatim>\<open>/\<close> that is
  not empty and neither begins nor ends with whitespace, a request for \<open>p\<close> followed by
  \<^verbatim>\<open>/\<close> looks up the same path as a request for \<open>p\<close>, and \<^verbatim>\<open>resolve_route\<close> returns or
  raises the same and writes the same \<^verbatim>\<open>path_params\<close> for both.
\<close>

theorem C3_trailing_slashes:
  "request_path raw = (if strip raw = ''/'' then ''/'' else rstrip (strip raw) ''/'') \<and>
   (p \<noteq> [] \<and> \<not> isspace (hd p) \<and> \<not> isspace (last p) \<and> p \<noteq> ''/'' \<longrightarrow>
      request_path (p @ ''/'') = request_path p \<and>
      fst (resolve_route parse_path_params self (scope\<lparr>scope_path := p @ ''/''\<rparr>)) =
        fst (resolve_route parse_path_params self (scope\<lparr>scope_path := p\<rparr>)) \<and>
      scope_path_params
          (fst (snd (resolve_route parse_path_params self (scope\<lparr>scope_path := p @ ''/''\<rparr>)))) =
        scope_path_params
          (fst (snd (resolve_route parse_path_params self (scope\<lparr>scope_path := p\<rparr>)))))"
proof (intro conjI impI)
  show "request_path raw = (if strip raw = ''/'' then ''/'' else rstrip (strip raw) ''/'')"
    by (rule request_path_rstrip)
next
  assume p: "p \<noteq> [] \<and> \<not> isspace (hd p) \<and> \<not> isspace (last p) \<and> p \<noteq> ''/''"
  then show same: "request_path (p @ ''/'') = request_path p"
    by (simp add: request_path_append_slash)
  then have lookup:
    "request_path (p @ ''/'') = request_path (scope_path (scope\<lparr>scope_path := p\<rparr>))"
    by simp
  from resolve_route_same_lookup(1) [OF lookup, of parse_path_params self]
  show "fst (resolve_route parse_path_params self (scope\<lparr>scope_path := p @ ''/''\<rparr>)) =
        fst (resolve_route parse_path_params self (scope\<lparr>scope_path := p\<rparr>))"
    by simp
  from resolve_route_same_lookup(2) [OF lookup, of parse_path_params self]
  show "scope_path_params
          (fst (snd (resolve_route parse_path_params self (scope\<lparr>scope_path := p @ ''/''\<rparr>)))) =
        scope_path_params
          (fst (snd (resolve_route parse_path_params self (scope\<lparr>scope_path := p\<rparr>))))"
    by simp
qed

theorem C3_trailing_slashes_witness:
  "''/items'' \<noteq> [] \<and> \<not> isspace (hd ''/items'') \<and> \<not> isspace (last ''/items'') \<and>
   ''/items'' \<noteq> ''/'' \<and>
   request_path (''/items'' @ ''/'') = request_path ''/items'' \<and>
   fst (resolve_route example_parser example_map (http_scope (''/items'' @ ''/'') ''GET'')) =
     fst (resolve_route example_parser example_map (http_scope ''/items'' ''GET'')) \<and>
   fst (resolve_route example_parser example_map (http_scope ''/items'' ''GET'')) =
     Inr ''list_items''"
proof -
  have p: "''/items'' \<noteq> [] \<and> \<not> isspace (hd ''/items'') \<and> \<not> isspace (last ''/items'') \<and>
      ''/items'' \<noteq> ''/''"
    by (simp add: isspace_def)
  have scopes: "(http_scope q ''GET'')\<lparr>scope_path := q'\<rparr> = http_scope q' ''GET''" for q q'
    by (simp add: http_scope_def)
  have "request_path (''/items'' @ ''/'') = request_path ''/items'' \<and>
     fst (resolve_route example_parser example_map (http_scope (''/items'' @ ''/'') ''GET'')) =
     fst (resolve_route example_parser example_map (http_scope ''/items'' ''GET''))"
    using C3_trailing_slashes
      [of "''/items''" "''/items''" example_parser example_map "http_scope ''/items'' ''GET''",
       THEN conjunct2, THEN mp, OF p]
    unfolding scopes by blast
  moreover have "fst (resolve_route example_parser example_map (http_scope ''/items'' ''GET'')) =
     Inr ''list_items''"
    by code_simp
  ultimately show ?thesis using p by blast
qed

subsection \<open>Registration\<close>

text \<open>Writing a list of entries into a dictionary: the last entry of a key wins.\<close>

lemma map_of_fold_update:
  "map_of (fold (\<lambda>(k, v). AList.update k v) es hs) key =
     (case map_of (rev es) key of Some v \<Rightarrow> Some v | None \<Rightarrow> map_of hs key)"
proof (induction es arbitrary: hs)
  case Nil
  show ?case by simp
next
  case (Cons e es)
  obtain k v where e: "e = (k, v)" by (cases e)
  show ?case
    by (simp add: Cons.IH e AList.update_conv' map_add_def split: option.split)
qed

lemma map_of_fold_update_distinct:
  assumes "(key, h) \<in> set es" and "distinct (map fst es)"
  shows "map_of (fold (\<lambda>(k, v). AList.update k v) es hs) key = Some h"
proof -
  from assms have "map_of (rev es) key = Some h"
    by (intro map_of_is_SomeI) (simp_all add: rev_map [symmetric])
  then show ?thesis by (simp add: map_of_fold_update)
qed

lemma store_handlers_entries:
  assumes "\<forall>cls. route_class route \<noteq> OtherRoute cls"
  shows "store_handlers the_app route d =
           (None,
            d\<lparr>asgi_handlers := fold (\<lambda>(k, v). AList.update k v) (entries the_app route) (asgi_handlers d),
              is_asgi := is_asgi d \<or> (\<exists>handler. route_class route = ASGIRoute handler)\<rparr>)"
proof (cases "route_class route")
  case (HTTPRoute handler_map)
  have "fold (\<lambda>(method, handler). AList.update method (build_route_middleware_stack the_app route handler))
          handler_map hs =
        fold (\<lambda>(k, v). AList.update k v)
          (map (\<lambda>(method, handler). (method, build_route_middleware_stack the_app route handler))
             handler_map) hs" for hs
    by (induction handler_map arbitrary: hs) auto
  with HTTPRoute show ?thesis
    by (simp add: store_handlers_def entries_def)
next
  case (WebSocketRoute handler)
  then show ?thesis by (simp add: store_handlers_def entries_def)
next
  case (ASGIRoute handler)
  then show ?thesis by (simp add: store_handlers_def entries_def)
next
  case (OtherRoute cls)
  with assms show ?thesis by simp
qed

lemma entries_known_class:
  assumes "(key, h) \<in> set (entries the_app route)"
  shows "\<forall>cls. route_class route \<noteq> OtherRoute cls"
  using assms by (auto simp add: entries_def)

text \<open>
  What \<^verbatim>\<open>add_routes\<close> does to the node it has found: a conflict of the parameters leaves
  the node as it is; otherwise the parameters and the entries of the route are written.
\<close>

lemma store_route_conflict:
  assumes "data cur = Some d" and "path_parameters d \<noteq> []"
      and "path_parameters d \<noteq> route_path_parameters route"
  shows "store_route the_app route pth cur =
           (Some (ImproperlyConfiguredException [''Routes with conflicting path parameters'']), cur)"
  using assms by (cases cur) (simp add: store_route_def)

lemma store_route_stored:
  assumes "store_route the_app route pth cur = (None, cur1)"
  shows "\<exists>d1. data cur1 = Some d1 \<and> path_parameters d1 = route_path_parameters route"
proof -
  let ?d = "case data cur of None \<Rightarrow> new_RouteMapLeafData | Some d \<Rightarrow> d"
  from assms have "\<not> (path_parameters ?d \<noteq> [] \<and> path_parameters ?d \<noteq> route_path_parameters route)"
    by (auto simp add: store_route_def Let_def split: if_splits)
  with assms show ?thesis
    by (cases "route_class route")
       (auto simp add: store_route_def Let_def store_handlers_def split: if_splits)
qed

lemma store_route_written:
  assumes "store_route the_app route pth cur = (None, cur1)"
      and "(key, h) \<in> set (entries the_app route)" and "distinct (map fst (entries the_app route))"
  shows "\<exists>d1. data cur1 = Some d1 \<and> map_of (asgi_handlers d1) key = Some h"
proof -
  let ?d = "case data cur of None \<Rightarrow> new_RouteMapLeafData | Some d \<Rightarrow> d"
  from assms(2) have known: "\<forall>cls. route_class route \<noteq> OtherRoute cls"
    by (rule entries_known_class)
  from assms(1) have "\<not> (path_parameters ?d \<noteq> [] \<and> path_parameters ?d \<noteq> route_path_parameters route)"
    by (auto simp add: store_route_def Let_def split: if_splits)
  with assms(1) show ?thesis
    by (auto simp add: store_route_def Let_def store_handlers_entries [OF known]
          map_of_fold_update_distinct [OF assms(2,3)] split: if_splits)
qed

lemma store_route_same_parameters:
  assumes "data cur = Some d" and "path_parameters d = route_path_parameters route"
      and "\<forall>cls. route_class route \<noteq> OtherRoute cls"
  shows "fst (store_route the_app route pth cur) = None"
  using assms by (simp add: store_route_def Let_def store_handlers_entries)


text \<open>
  Descending with creation applies the body to the node at the end of the components, a
  new node if there is none, and leaves the result at the end of the components.
\<close>

lemma defaultdict_getitem_value:
  obtains d1 where
    "defaultdict_getitem factory d key =
       (case map_of d key of None \<Rightarrow> factory | Some v \<Rightarrow> v, d1)"
  by (cases "map_of d key") (simp_all add: defaultdict_getitem_def)

lemma node_at_new_RouteMapTree:
  "(case node_at new_RouteMapTree components of Some n \<Rightarrow> n | None \<Rightarrow> new_RouteMapTree) =
     (new_RouteMapTree :: 'a RouteMapTree)"
  by (cases components) (simp_all add: new_RouteMapTree_def)

lemma descend_node:
  assumes "descend components body cur = (raised, cur1)"
  shows "\<exists>leaf1.
           body (case node_at cur components of Some n \<Rightarrow> n | None \<Rightarrow> new_RouteMapTree) =
             (raised, leaf1) \<and>
           node_at cur1 components = Some leaf1"
  using assms
proof (induction components arbitrary: cur cur1)
  case Nil
  then show ?case by simp
next
  case (Cons component components)
  let ?child = "case map_of (children cur) component of
                  None \<Rightarrow> new_RouteMapTree | Some child \<Rightarrow> child"
  obtain children1 where getitem:
    "defaultdict_getitem new_RouteMapTree (children cur) component = (?child, children1)"
    by (rule defaultdict_getitem_value)
  obtain raised' child1 where below: "descend components body ?child = (raised', child1)"
    by (cases "descend components body ?child") auto
  with Cons.prems getitem have result: "raised' = raised"
    "cur1 = RouteMapTree (AList.update component child1 children1) (data cur)"
    by simp_all
  from below result have "descend components body ?child = (raised, child1)" by simp
  from Cons.IH [OF this] obtain leaf1
    where body: "body (case node_at ?child components of Some n \<Rightarrow> n | None \<Rightarrow> new_RouteMapTree) =
             (raised, leaf1)"
      and leaf: "node_at child1 components = Some leaf1"
    by blast
  have "(case node_at cur (component # components) of Some n \<Rightarrow> n | None \<Rightarrow> new_RouteMapTree) =
        (case node_at ?child components of Some n \<Rightarrow> n | None \<Rightarrow> new_RouteMapTree)"
    by (cases "map_of (children cur) component") (simp_all add: node_at_new_RouteMapTree)
  with body result have "body (case node_at cur (component # components) of
                             Some n \<Rightarrow> n | None \<Rightarrow> new_RouteMapTree) = (raised, leaf1)"
    by simp
  moreover from leaf result have "node_at cur1 (component # components) = Some leaf1"
    by (simp add: AList.update_conv')
  ultimately show ?case by blast
qed

lemma add_route_node:
  assumes "add_route the_app self route = (raised, self1)"
  shows "\<exists>leaf1.
           store_route the_app route (local_path the_app route)
             (case node_of the_app self route of Some n \<Rightarrow> n | None \<Rightarrow> new_RouteMapTree) =
             (raised, leaf1) \<and>
           node_of the_app self1 route = Some leaf1"
proof (cases "in_tree the_app route")
  case True
  let ?pth = "wildcard_path route"
  obtain raised' tree1
    where run: "descend (components_of ?pth) (store_route the_app route ?pth) (tree self) =
                  (raised', tree1)"
    by (cases "descend (components_of ?pth) (store_route the_app route ?pth) (tree self)") auto
  with assms True have "raised' = raised" "self1 = self\<lparr>tree := tree1\<rparr>"
    by (simp_all add: add_route_def in_tree_def Let_def)
  with descend_node [OF run] True show ?thesis
    by (simp add: node_of_def local_path_def)
next
  case False
  let ?cur = "case map_of (plain_routes self) (path route) of
                None \<Rightarrow> new_RouteMapTree | Some cur \<Rightarrow> cur"
  obtain plain1 where getitem:
    "defaultdict_getitem new_RouteMapTree (plain_routes self) (path route) = (?cur, plain1)"
    by (rule defaultdict_getitem_value)
  obtain raised' leaf1
    where run: "store_route the_app route (path route) ?cur = (raised', leaf1)"
    by (cases "store_route the_app route (path route) ?cur") auto
  with assms False getitem have "raised' = raised"
    "self1 = self\<lparr>plain_routes := AList.update (path route) leaf1 plain1\<rparr>"
    by (simp_all add: add_route_def in_tree_def Let_def)
  moreover have "(case map_of (plain_routes self) (path route) of
                    Some n \<Rightarrow> n | None \<Rightarrow> new_RouteMapTree) = ?cur"
    by (simp split: option.split)
  ultimately show ?thesis
    using run False by (simp add: node_of_def local_path_def AList.update_conv')
qed

lemma add_routes_single:
  "add_routes the_app self [route] = add_route the_app self route"
  by (cases "add_route the_app self route") (simp split: option.split)

lemma add_routes_pair:
  assumes "add_route the_app self r1 = (None, self1)"
  shows "add_routes the_app self [r1, r2] = add_route the_app self1 r2"
  using assms by (simp add: add_routes_single [simplified])

subsection \<open>Conflicting path parameters\<close>

text \<open>
  Claim C2, as it is stated, fails: the check of line 60 is skipped when the list stored at
  the node is empty. With the static path \<^verbatim>\<open>/files/*\<close>, its mount stores the empty list at
  the node \<^verbatim>\<open>/\<close>, \<^verbatim>\<open>files\<close>, \<^verbatim>\<open>*\<close>; the route \<^verbatim>\<open>/files/{name:str}\<close> comes to the same node
  with a list of one parameter, and \<^verbatim>\<open>add_routes\<close> returns without an exception.
\<close>

theorem C2_empty_stored_list_counterexample:
  "fst (add_routes files_app init_PythonRouteMap [files_mount, file_route]) = None \<and>
   route_path_parameters file_route \<noteq> route_path_parameters files_mount \<and>
   in_tree files_app files_mount \<and> in_tree files_app file_route \<and>
   components_of (wildcard_path file_route) = components_of (wildcard_path files_mount)"
  by code_simp

text \<open>
  Claim C2, amended. Let a first route with a non-empty list of path parameters be
  registered, and let a second route come to the same node of the tree (it goes into the
  tree, and its path with wildcards has the same components). If the list of the second
  route differs from the list of the first, \<^verbatim>\<open>add_routes\<close> raises
  \<^verbatim>\<open>ImproperlyConfiguredException\<close> for the conflict, at registration; if the list is the
  same and the second route is of one of the three known classes, \<^verbatim>\<open>add_routes\<close> raises
  nothing.
\<close>

theorem C2_conflicting_path_parameters:
  assumes "add_routes the_app self [r1] = (None, self1)"
      and "route_path_parameters r1 \<noteq> []"
      and "in_tree the_app r2"
      and "components_of (wildcard_path r2) = components_of (wildcard_path r1)"
  shows "(route_path_parameters r2 \<noteq> route_path_parameters r1 \<longrightarrow>
            fst (add_routes the_app self [r1, r2]) =
              Some (ImproperlyConfiguredException [''Routes with conflicting path parameters''])) \<and>
         (route_path_parameters r2 = route_path_parameters r1 \<and>
          (\<forall>cls. route_class r2 \<noteq> OtherRoute cls) \<longrightarrow>
            fst (add_routes the_app self [r1, r2]) = None)"
proof -
  from assms(1) have first: "add_route the_app self r1 = (None, self1)"
    by (simp only: add_routes_single)
  from add_route_node [OF first] obtain leaf1
    where stored: "store_route the_app r1 (local_path the_app r1)
             (case node_of the_app self r1 of Some n \<Rightarrow> n | None \<Rightarrow> new_RouteMapTree) =
             (None, leaf1)"
      and node1: "node_of the_app self1 r1 = Some leaf1"
    by blast
  from store_route_stored [OF stored] obtain d1
    where leaf1: "data leaf1 = Some d1" "path_parameters d1 = route_path_parameters r1"
    by blast
  from assms(2) have "in_tree the_app r1" by (simp add: in_tree_def)
  with node1 assms(3,4) have node2: "node_of the_app self1 r2 = Some leaf1"
    by (simp add: node_of_def)
  obtain raised self2 where second: "add_route the_app self1 r2 = (raised, self2)"
    by (cases "add_route the_app self1 r2") auto
  from add_route_node [OF second] node2 obtain leaf2
    where again: "store_route the_app r2 (local_path the_app r2) leaf1 = (raised, leaf2)"
    by auto
  have both: "fst (add_routes the_app self [r1, r2]) = raised"
    using add_routes_pair [OF first, of r2] second by simp
  show ?thesis
  proof (intro conjI impI)
    assume "route_path_parameters r2 \<noteq> route_path_parameters r1"
    with leaf1 assms(2) again
    have "raised = Some (ImproperlyConfiguredException [''Routes with conflicting path parameters''])"
      by (simp add: store_route_conflict)
    with both show "fst (add_routes the_app self [r1, r2]) =
        Some (ImproperlyConfiguredException [''Routes with conflicting path parameters''])"
      by simp
  next
    assume "route_path_parameters r2 = route_path_parameters r1 \<and>
          (\<forall>cls. route_class r2 \<noteq> OtherRoute cls)"
    with leaf1 have "fst (store_route the_app r2 (local_path the_app r2) leaf1) = None"
      by (intro store_route_same_parameters) simp_all
    with again both show "fst (add_routes the_app self [r1, r2]) = None" by simp
  qed
qed

theorem C2_conflicting_path_parameters_witness:
  "fst (add_routes example_app init_PythonRouteMap [route_a_x]) = None \<and>
   route_path_parameters route_a_x \<noteq> [] \<and>
   in_tree example_app route_a_y \<and>
   components_of (wildcard_path route_a_y) = components_of (wildcard_path route_a_x) \<and>
   route_path_parameters route_a_y \<noteq> route_path_parameters route_a_x \<and>
   fst (add_routes example_app init_PythonRouteMap [route_a_x, route_a_y]) =
     Some (ImproperlyConfiguredException [''Routes with conflicting path parameters'']) \<and>
   fst (add_routes example_app init_PythonRouteMap [route_a_x, route_a_x]) = None"
proof -
  have registered: "fst (add_routes example_app init_PythonRouteMap [route_a_x]) = None"
    by code_simp
  then obtain self1
    where first: "add_routes example_app init_PythonRouteMap [route_a_x] = (None, self1)"
    by (cases "add_routes example_app init_PythonRouteMap [route_a_x]") simp
  have params: "route_path_parameters route_a_x \<noteq> []" by (simp add: route_a_x_def)
  have tree_y: "in_tree example_app route_a_y" by (simp add: in_tree_def route_a_y_def)
  have tree_x: "in_tree example_app route_a_x" by (simp add: in_tree_def route_a_x_def)
  have comps: "components_of (wildcard_path route_a_y) = components_of (wildcard_path route_a_x)"
    by code_simp
  have differ: "route_path_parameters route_a_y \<noteq> route_path_parameters route_a_x"
    by (simp add: route_a_y_def route_a_x_def)
  have known: "\<forall>cls. route_class route_a_x \<noteq> OtherRoute cls" by (simp add: route_a_x_def)
  from C2_conflicting_path_parameters [OF first params tree_y comps] differ
  have conflict: "fst (add_routes example_app init_PythonRouteMap [route_a_x, route_a_y]) =
     Some (ImproperlyConfiguredException [''Routes with conflicting path parameters''])"
    by blast
  from C2_conflicting_path_parameters [OF first params tree_x refl] known
  have again: "fst (add_routes example_app init_PythonRouteMap [route_a_x, route_a_x]) = None"
    by blast
  from registered params tree_y comps differ conflict again show ?thesis by blast
qed

subsection \<open>Registering twice under one key\<close>

lemma node_of_same_path:
  assumes "path r2 = path r1" and "route_path_parameters r2 = route_path_parameters r1"
  shows "node_of the_app self r2 = node_of the_app self r1"
  using assms by (simp add: node_of_def in_tree_def wildcard_path_def)

lemma dispatch_selected_key:
  assumes "data cur = Some d"
      and "parse_path_params (path_parameters d) path_params = Inr parsed"
      and "selected_key d scope = Some key"
      and "map_of (asgi_handlers d) key = Some h"
  shows "fst (dispatch parse_path_params cur path_params scope) = Inr h"
  using assms by (auto simp add: dispatch_leaf selected_key_def split: if_splits)

lemma store_route_no_conflict:
  assumes "data cur = Some d"
      and "path_parameters d = [] \<or> path_parameters d = route_path_parameters route"
      and "\<forall>cls. route_class route \<noteq> OtherRoute cls"
  shows "fst (store_route the_app route pth cur) = None"
  using assms by (auto simp add: store_route_def Let_def store_handlers_entries)

text \<open>
  Claim C8. Let the node of a route already hold a handler under a key, written by an
  earlier registration, and let the route have an entry under that key too (the keys of
  one route are distinct, as those of a \<^verbatim>\<open>dict\<close> are; the path parameters stored at the node
  do not conflict with those of the route). Then \<^verbatim>\<open>add_routes\<close> registers the route
  without raising; afterwards the node holds the handler of the route under the key, in
  place of the earlier one; and every request whose path leads to that node, whose
  parameters parse and for which the key is the one looked up, is resolved to the handler
  of the route.
\<close>

theorem C8_last_write_wins:
  assumes "node_of the_app self route = Some leaf1" and "data leaf1 = Some d1"
      and "map_of (asgi_handlers d1) key = Some h1"
      and "path_parameters d1 = [] \<or> path_parameters d1 = route_path_parameters route"
      and "(key, h2) \<in> set (entries the_app route)"
      and "distinct (map fst (entries the_app route))"
  shows "\<exists>self2 leaf2 d2.
           add_routes the_app self [route] = (None, self2) \<and>
           node_of the_app self2 route = Some leaf2 \<and> data leaf2 = Some d2 \<and>
           path_parameters d2 = route_path_parameters route \<and>
           map_of (asgi_handlers d2) key = Some h2 \<and>
           (\<forall>scope path_params parsed.
              fst (find_node self2 (request_path (scope_path scope)) scope) =
                Inr (leaf2, path_params) \<and>
              parse_path_params (path_parameters d2) path_params = Inr parsed \<and>
              selected_key d2 scope = Some key \<longrightarrow>
              fst (resolve_route parse_path_params self2 scope) = Inr h2)"
proof -
  obtain raised self2 where run: "add_route the_app self route = (raised, self2)"
    by (cases "add_route the_app self route") auto
  from add_route_node [OF run] assms(1) obtain leaf2
    where stored: "store_route the_app route (local_path the_app route) leaf1 = (raised, leaf2)"
      and node: "node_of the_app self2 route = Some leaf2"
    by auto
  from assms(5) have known: "\<forall>cls. route_class route \<noteq> OtherRoute cls"
    by (rule entries_known_class)
  have "fst (store_route the_app route (local_path the_app route) leaf1) = None"
    using assms(2,4) known by (rule store_route_no_conflict)
  with stored have raised: "raised = None" by simp
  with run have registered: "add_routes the_app self [route] = (None, self2)"
    by (simp only: add_routes_single)
  from stored raised
  have stored': "store_route the_app route (local_path the_app route) leaf1 = (None, leaf2)"
    by simp
  from store_route_written [OF stored' assms(5,6)] obtain d2
    where leaf2: "data leaf2 = Some d2" "map_of (asgi_handlers d2) key = Some h2"
    by blast
  from store_route_stored [OF stored'] leaf2(1)
  have params: "path_parameters d2 = route_path_parameters route" by simp
  have resolved: "fst (resolve_route parse_path_params self2 scope) = Inr h2"
    if found: "fst (find_node self2 (request_path (scope_path scope)) scope) = Inr (leaf2, path_params)"
      and parsed: "parse_path_params (path_parameters d2) path_params = Inr parsed"
      and selected: "selected_key d2 scope = Some key"
    for scope :: "'c scope" and path_params parsed
  proof -
    have "fst (resolve_route parse_path_params self2 scope) =
          fst (dispatch parse_path_params leaf2 path_params scope)"
      using found by (rule resolve_route_dispatch)
    also have "\<dots> = Inr h2"
      using leaf2(1) parsed selected leaf2(2) by (rule dispatch_selected_key)
    finally show ?thesis .
  qed
  show ?thesis
  proof (intro exI conjI allI impI)
    show "add_routes the_app self [route] = (None, self2)" by (rule registered)
    show "node_of the_app self2 route = Some leaf2" by (rule node)
    show "data leaf2 = Some d2" by (rule leaf2(1))
    show "path_parameters d2 = route_path_parameters route" by (rule params)
    show "map_of (asgi_handlers d2) key = Some h2" by (rule leaf2(2))
  next
    fix scope :: "'c scope" and path_params parsed
    assume "fst (find_node self2 (request_path (scope_path scope)) scope) =
                Inr (leaf2, path_params) \<and>
              parse_path_params (path_parameters d2) path_params = Inr parsed \<and>
              selected_key d2 scope = Some key"
    then show "fst (resolve_route parse_path_params self2 scope) = Inr h2"
      using resolved by blast
  qed
qed

text \<open>
  Two routes at \<^verbatim>\<open>/items\<close>, both with a handler for GET: after the first the node holds the
  first handler and the request is resolved to it; the second is registered without an
  exception, and the request is then resolved to the second handler.
\<close>

theorem C8_last_write_wins_witness:
  "node_of example_app (snd (add_routes example_app init_PythonRouteMap [first_items])) second_items =
     Some (RouteMapTree []
             (Some \<lparr>path_parameters = [], asgi_handlers = [(''GET'', ''first'')],
                    is_asgi = False, static_path = []\<rparr>)) \<and>
   (''GET'', ''second'') \<in> set (entries example_app second_items) \<and>
   fst (add_routes example_app init_PythonRouteMap [first_items, second_items]) = None \<and>
   fst (resolve_route example_parser
          (snd (add_routes example_app init_PythonRouteMap [first_items]))
          (http_scope ''/items'' ''GET'')) = Inr ''first'' \<and>
   fst (resolve_route example_parser
          (snd (add_routes example_app init_PythonRouteMap [first_items, second_items]))
          (http_scope ''/items'' ''GET'')) = Inr ''second''"
proof -
  let ?scope = "http_scope ''/items'' ''GET''"
  let ?self1 = "snd (add_routes example_app init_PythonRouteMap [first_items])"
  let ?d1 = "\<lparr>path_parameters = [], asgi_handlers = [(''GET'', ''first'')],
              is_asgi = False, static_path = []\<rparr> :: string RouteMapLeafData"
  have node1: "node_of example_app ?self1 second_items = Some (RouteMapTree [] (Some ?d1))"
    by code_simp
  have leaf1: "data (RouteMapTree [] (Some ?d1)) = Some ?d1"
    "map_of (asgi_handlers ?d1) ''GET'' = Some ''first''"
    "path_parameters ?d1 = [] \<or> path_parameters ?d1 = route_path_parameters second_items"
    by simp_all
  have entry: "(''GET'', ''second'') \<in> set (entries example_app second_items)"
    "distinct (map fst (entries example_app second_items))"
    by (simp_all add: entries_def second_items_def example_app_def)
  from C8_last_write_wins [OF node1 leaf1 entry, where parse_path_params = example_parser]
  obtain self2 leaf2 d2
    where second: "add_routes example_app ?self1 [second_items] = (None, self2)"
      and node: "node_of example_app self2 second_items = Some leaf2"
      and leaf: "data leaf2 = Some d2" "path_parameters d2 = route_path_parameters second_items"
      and resolve: "\<And>scope path_params parsed.
              fst (find_node self2 (request_path (scope_path scope)) scope) =
                Inr (leaf2, path_params) \<Longrightarrow>
              example_parser (path_parameters d2) path_params = Inr parsed \<Longrightarrow>
              selected_key d2 scope = Some ''GET'' \<Longrightarrow>
              fst (resolve_route example_parser self2 scope) = Inr ''second''"
    by blast
  have "fst (add_routes example_app init_PythonRouteMap [first_items]) = None"
    by code_simp
  then have "add_route example_app init_PythonRouteMap first_items = (None, ?self1)"
    by (cases "add_routes example_app init_PythonRouteMap [first_items]")
       (simp only: add_routes_single, simp)
  from add_routes_pair [OF this, of second_items] second
  have both: "add_routes example_app init_PythonRouteMap [first_items, second_items] = (None, self2)"
    by (simp only: add_routes_single)
  have "\<not> in_tree example_app second_items"
    by (simp add: in_tree_def second_items_def example_app_def)
  with node have plain: "map_of (plain_routes self2) ''/items'' = Some leaf2"
    by (simp add: node_of_def second_items_def)
  have looked_up: "request_path (scope_path ?scope) = ''/items''" by code_simp
  from plain looked_up
  have found: "fst (find_node self2 (request_path (scope_path ?scope)) ?scope) = Inr (leaf2, [])"
    by (simp add: find_node_plain)
  from leaf have parsed: "example_parser (path_parameters d2) [] = Inr []"
    by (simp add: example_parser_def second_items_def)
  have "map_of (plain_routes (snd (add_routes example_app init_PythonRouteMap
             [first_items, second_items]))) ''/items'' =
        Some (RouteMapTree []
               (Some \<lparr>path_parameters = [],
                      asgi_handlers = [(''GET'', ''second''), (''POST'', ''create'')],
                      is_asgi = False, static_path = []\<rparr>))"
    by code_simp
  with both plain leaf have "\<not> is_asgi d2" by auto
  then have key: "selected_key d2 ?scope = Some ''GET''"
    by (simp add: selected_key_def http_scope_def)
  from resolve [OF found parsed key] both
  have after: "fst (resolve_route example_parser
          (snd (add_routes example_app init_PythonRouteMap [first_items, second_items]))
          ?scope) = Inr ''second''"
    by simp
  have before: "fst (resolve_route example_parser ?self1 ?scope) = Inr ''first''"
    by code_simp
  from node1 entry(1) both before after show ?thesis by simp
qed

text \<open>
  In particular for two routes registered one after the other, with the same path and
  the same path parameters, both with an entry under the key.
\<close>

lemma add_routes_twice:
  assumes "add_routes the_app self [r1] = (None, self1)"
      and "path r2 = path r1" and "route_path_parameters r2 = route_path_parameters r1"
      and "(key, h1) \<in> set (entries the_app r1)" and "distinct (map fst (entries the_app r1))"
      and "(key, h2) \<in> set (entries the_app r2)" and "distinct (map fst (entries the_app r2))"
  shows "\<exists>leaf1 d1 self2 leaf2 d2.
           node_of the_app self1 r1 = Some leaf1 \<and> data leaf1 = Some d1 \<and>
           map_of (asgi_handlers d1) key = Some h1 \<and>
           add_routes the_app self [r1, r2] = (None, self2) \<and>
           node_of the_app self2 r2 = Some leaf2 \<and> data leaf2 = Some d2 \<and>
           path_parameters d2 = route_path_parameters r2 \<and>
           map_of (asgi_handlers d2) key = Some h2 \<and>
           (\<forall>scope path_params parsed.
              fst (find_node self2 (request_path (scope_path scope)) scope) =
                Inr (leaf2, path_params) \<and>
              parse_path_params (path_parameters d2) path_params = Inr parsed \<and>
              selected_key d2 scope = Some key \<longrightarrow>
              fst (resolve_route parse_path_params self2 scope) = Inr h2)"
proof -
  from assms(1) have first: "add_route the_app self r1 = (None, self1)"
    by (simp only: add_routes_single)
  from add_route_node [OF first] obtain leaf1
    where stored1: "store_route the_app r1 (local_path the_app r1)
             (case node_of the_app self r1 of Some n \<Rightarrow> n | None \<Rightarrow> new_RouteMapTree) =
             (None, leaf1)"
      and node1: "node_of the_app self1 r1 = Some leaf1"
    by blast
  from store_route_written [OF stored1 assms(4,5)] obtain d1
    where leaf1: "data leaf1 = Some d1" "map_of (asgi_handlers d1) key = Some h1"
    by blast
  from store_route_stored [OF stored1] leaf1(1)
  have params1: "path_parameters d1 = route_path_parameters r1" by simp
  from node1 node_of_same_path [OF assms(2,3), of the_app self1]
  have node2: "node_of the_app self1 r2 = Some leaf1"
    by simp
  obtain raised self2 where second: "add_route the_app self1 r2 = (raised, self2)"
    by (cases "add_route the_app self1 r2") auto
  from add_route_node [OF second] node2 obtain leaf2
    where stored2: "store_route the_app r2 (local_path the_app r2) leaf1 = (raised, leaf2)"
      and node3: "node_of the_app self2 r2 = Some leaf2"
    by auto
  from assms(6) have known: "\<forall>cls. route_class r2 \<noteq> OtherRoute cls"
    by (rule entries_known_class)
  from leaf1(1) params1 assms(3) known
  have "fst (store_route the_app r2 (local_path the_app r2) leaf1) = None"
    by (intro store_route_same_parameters) simp_all
  with stored2 have raised: "raised = None" by simp
  with add_routes_pair [OF first, of r2] second
  have both: "add_routes the_app self [r1, r2] = (None, self2)" by simp
  from stored2 raised have stored2': "store_route the_app r2 (local_path the_app r2) leaf1 = (None, leaf2)"
    by simp
  from store_route_written [OF stored2' assms(6,7)] obtain d2
    where leaf2: "data leaf2 = Some d2" "map_of (asgi_handlers d2) key = Some h2"
    by blast
  from store_route_stored [OF stored2'] leaf2(1)
  have params2: "path_parameters d2 = route_path_parameters r2" by simp
  have resolved: "fst (resolve_route parse_path_params self2 scope) = Inr h2"
    if found: "fst (find_node self2 (request_path (scope_path scope)) scope) = Inr (leaf2, path_params)"
      and parsed: "parse_path_params (path_parameters d2) path_params = Inr parsed"
      and selected: "selected_key d2 scope = Some key"
    for scope :: "'c scope" and path_params parsed
  proof -
    have "fst (resolve_route parse_path_params self2 scope) =
          fst (dispatch parse_path_params leaf2 path_params scope)"
      using found by (rule resolve_route_dispatch)
    also have "\<dots> = Inr h2"
      using leaf2(1) parsed selected leaf2(2) by (rule dispatch_selected_key)
    finally show ?thesis .
  qed
  show ?thesis
  proof (intro exI conjI allI impI)
    show "node_of the_app self1 r1 = Some leaf1" by (rule node1)
    show "data leaf1 = Some d1" by (rule leaf1(1))
    show "map_of (asgi_handlers d1) key = Some h1" by (rule leaf1(2))
    show "add_routes the_app self [r1, r2] = (None, self2)" by (rule both)
    show "node_of the_app self2 r2 = Some leaf2" by (rule node3)
    show "data leaf2 = Some d2" by (rule leaf2(1))
    show "path_parameters d2 = route_path_parameters r2" by (rule params2)
    show "map_of (asgi_handlers d2) key = Some h2" by (rule leaf2(2))
  next
    fix scope :: "'c scope" and path_params parsed
    assume "fst (find_node self2 (request_path (scope_path scope)) scope) =
                Inr (leaf2, path_params) \<and>
              parse_path_params (path_parameters d2) path_params = Inr parsed \<and>
              selected_key d2 scope = Some key"
    then show "fst (resolve_route parse_path_params self2 scope) = Inr h2"
      using resolved by blast
  qed
qed

subsection \<open>The root path\<close>

lemma resolve_route_init:
  fixes parse_path_params :: "'p parser" and scope :: "'p scope"
  shows "fst (resolve_route parse_path_params (init_PythonRouteMap :: 'a PythonRouteMap) scope) =
           Inl (NotFoundException [])"
proof -
  let ?pth = "request_path (scope_path scope)"
  obtain components where components: "components_of ?pth = ''/'' # components"
    by (simp add: components_of_def)
  have "traverse_loop (new_RouteMapTree :: 'a RouteMapTree) (''/'' # components) [] scope =
          (Inl (NotFoundException []), scope, new_RouteMapTree)"
    by (rule traverse_loop_not_found) (simp_all add: new_RouteMapTree_def)
  with components
  have "fst (find_node (init_PythonRouteMap :: 'a PythonRouteMap) ?pth scope) =
          Inl (NotFoundException [])"
    by (simp add: find_node_tree init_PythonRouteMap_def)
  then show ?thesis by (rule resolve_route_not_found)
qed

lemma request_path_root: "request_path ''/'' = ''/''"
  by code_simp

lemma entries_HTTPRoute:
  assumes "route_class route = HTTPRoute handler_map"
  shows "map fst (entries the_app route) = map fst handler_map"
    and "(method, handler) \<in> set handler_map \<Longrightarrow>
           (method, build_route_middleware_stack the_app route handler) \<in> set (entries the_app route)"
  using assms by (auto simp add: entries_def case_prod_beta intro: rev_image_eqI)

text \<open>
  Claim C7, as it is stated, fails when the leaf of the root route is marked \<^verbatim>\<open>is_asgi\<close>:
  the ASGI key is then looked up whatever the method. With \<^verbatim>\<open>/\<close> as a static path, the
  HTTP route at \<^verbatim>\<open>/\<close> goes into the tree, its leaf is marked and has no ASGI handler, and
  the GET request for \<^verbatim>\<open>/\<close> ends in \<^verbatim>\<open>NotFoundException\<close>. With an ASGI route at \<^verbatim>\<open>/\<close>
  registered before the HTTP route, the GET request is resolved to the ASGI app.
\<close>

theorem C7_root_leaf_marked_is_asgi_counterexample:
  "fst (add_routes root_static_app init_PythonRouteMap [root_route]) = None \<and>
   fst (resolve_route example_parser
          (snd (add_routes root_static_app init_PythonRouteMap [root_route]))
          (http_scope ''/'' ''GET'')) = Inl (NotFoundException []) \<and>
   fst (add_routes example_app init_PythonRouteMap [root_asgi, root_route]) = None \<and>
   fst (resolve_route example_parser
          (snd (add_routes example_app init_PythonRouteMap [root_asgi, root_route]))
          (http_scope ''/'' ''GET'')) = Inr ''root_app''"
  by code_simp

text \<open>
  Claim C7, amended. On the route map without routes, \<^verbatim>\<open>resolve_route\<close> raises
  \<^verbatim>\<open>NotFoundException\<close> for every request, the one for \<^verbatim>\<open>/\<close> among them. When an HTTP
  route with path \<^verbatim>\<open>/\<close>, without path parameters and with a handler for GET has been
  registered, \<^verbatim>\<open>/\<close> is not a static path, and the leaf under \<^verbatim>\<open>/\<close> is not marked
  \<^verbatim>\<open>is_asgi\<close> by an ASGI route, an HTTP GET request for \<^verbatim>\<open>/\<close> is resolved to the
  middleware stack of that handler: the single component \<^verbatim>\<open>/\<close> leads to the leaf of the
  route.
\<close>

theorem C7_root_path:
  "fst (resolve_route parse_path_params init_PythonRouteMap scope0) = Inl (NotFoundException []) \<and>
   (add_routes the_app self [route] = (None, self1) \<and>
    path route = ''/'' \<and> route_path_parameters route = [] \<and> ''/'' \<notin> static_paths the_app \<and>
    route_class route = HTTPRoute handler_map \<and>
    (''GET'', handler) \<in> set handler_map \<and> distinct (map fst handler_map) \<and>
    (\<forall>leaf d. map_of (plain_routes self1) ''/'' = Some leaf \<and> data leaf = Some d \<longrightarrow> \<not> is_asgi d) \<and>
    scope_path scope = ''/'' \<and> scope_type scope = ScopeType_HTTP \<and>
    scope_method scope = Some ''GET'' \<and> parse_path_params [] [] = Inr parsed \<longrightarrow>
    fst (resolve_route parse_path_params self1 scope) =
      Inr (build_route_middleware_stack the_app route handler))"
proof (intro conjI impI)
  show "fst (resolve_route parse_path_params init_PythonRouteMap scope0) =
          Inl (NotFoundException [])"
    by (rule resolve_route_init)
next
  assume hyps: "add_routes the_app self [route] = (None, self1) \<and>
    path route = ''/'' \<and> route_path_parameters route = [] \<and> ''/'' \<notin> static_paths the_app \<and>
    route_class route = HTTPRoute handler_map \<and>
    (''GET'', handler) \<in> set handler_map \<and> distinct (map fst handler_map) \<and>
    (\<forall>leaf d. map_of (plain_routes self1) ''/'' = Some leaf \<and> data leaf = Some d \<longrightarrow> \<not> is_asgi d) \<and>
    scope_path scope = ''/'' \<and> scope_type scope = ScopeType_HTTP \<and>
    scope_method scope = Some ''GET'' \<and> parse_path_params [] [] = Inr parsed"
  let ?h = "build_route_middleware_stack the_app route handler"
  from hyps have first: "add_route the_app self route = (None, self1)"
    by (simp only: add_routes_single)
  from add_route_node [OF first] obtain leaf1
    where stored: "store_route the_app route (local_path the_app route)
             (case node_of the_app self route of Some n \<Rightarrow> n | None \<Rightarrow> new_RouteMapTree) =
             (None, leaf1)"
      and node: "node_of the_app self1 route = Some leaf1"
    by blast
  from hyps have plain: "\<not> in_tree the_app route" by (simp add: in_tree_def)
  with node hyps have root: "map_of (plain_routes self1) ''/'' = Some leaf1"
    by (simp add: node_of_def)
  from hyps have http_class: "route_class route = HTTPRoute handler_map" by simp
  from hyps entries_HTTPRoute(2) [OF http_class, of "''GET''" handler the_app]
  have entry: "(''GET'', ?h) \<in> set (entries the_app route)" by simp
  from hyps have keys: "distinct (map fst (entries the_app route))"
    by (simp add: entries_HTTPRoute(1) [OF http_class])
  from store_route_written [OF stored entry keys] obtain d1
    where leaf: "data leaf1 = Some d1" "map_of (asgi_handlers d1) ''GET'' = Some ?h"
    by blast
  from store_route_stored [OF stored] leaf(1) hyps
  have params: "path_parameters d1 = []" by simp
  from hyps root leaf(1) have "\<not> is_asgi d1" by blast
  with hyps have key: "selected_key d1 scope = Some ''GET''"
    by (simp add: selected_key_def)
  from hyps root
  have "fst (find_node self1 (request_path (scope_path scope)) scope) = Inr (leaf1, [])"
    by (simp add: request_path_root find_node_plain)
  then have "fst (resolve_route parse_path_params self1 scope) =
        fst (dispatch parse_path_params leaf1 [] scope)"
    by (rule resolve_route_dispatch)
  also from hyps params have parsed: "parse_path_params (path_parameters d1) [] = Inr parsed"
    by simp
  have "fst (dispatch parse_path_params leaf1 [] scope) = Inr ?h"
    using leaf(1) parsed key leaf(2) by (rule dispatch_selected_key)
  finally show "fst (resolve_route parse_path_params self1 scope) = Inr ?h" .
qed

text \<open>
  The route \<^verbatim>\<open>/\<close> with a handler for GET, registered on the empty route map.
\<close>

theorem C7_root_path_witness:
  "fst (resolve_route example_parser init_PythonRouteMap (http_scope ''/'' ''GET'')) =
     (Inl (NotFoundException []) :: exception + string) \<and>
   fst (add_routes example_app init_PythonRouteMap [root_route]) = None \<and>
   fst (resolve_route example_parser
          (snd (add_routes example_app init_PythonRouteMap [root_route]))
          (http_scope ''/'' ''GET'')) = Inr ''home''"
proof -
  let ?scope = "http_scope ''/'' ''GET''"
  let ?self1 = "snd (add_routes example_app init_PythonRouteMap [root_route])"
  have registered: "fst (add_routes example_app init_PythonRouteMap [root_route]) = None"
    by code_simp
  then have first: "add_routes example_app init_PythonRouteMap [root_route] = (None, ?self1)"
    by (cases "add_routes example_app init_PythonRouteMap [root_route]") simp
  have route: "path root_route = ''/''" "route_path_parameters root_route = []"
    "''/'' \<notin> static_paths example_app"
    "route_class root_route = HTTPRoute [(''GET'', ''home'')]"
    "(''GET'', ''home'') \<in> set [(''GET'', ''home'')]"
    "distinct (map fst [(''GET'', ''home'')])"
    by (simp_all add: root_route_def example_app_def)
  have "map_option (\<lambda>leaf. map_option is_asgi (data leaf))
          (map_of (plain_routes ?self1) ''/'') = Some (Some False)"
    by code_simp
  then have leaf: "\<forall>leaf d. map_of (plain_routes ?self1) ''/'' = Some leaf \<and> data leaf = Some d \<longrightarrow>
      \<not> is_asgi d"
    by auto
  have request: "scope_path ?scope = ''/''" "scope_type ?scope = ScopeType_HTTP"
    "scope_method ?scope = Some ''GET''"
    by (simp_all add: http_scope_def)
  have parsed: "example_parser [] [] = Inr []" by (simp add: example_parser_def)
  have stack: "build_route_middleware_stack example_app root_route ''home'' = ''home''"
    by (simp add: example_app_def)
  note inst =
    C7_root_path
      [where parse_path_params = example_parser and scope0 = ?scope and the_app = example_app
         and self = init_PythonRouteMap and route = root_route and ?self1.0 = ?self1
         and handler_map = "[(''GET'', ''home'')]" and handler = "''home''" and scope = ?scope
         and parsed = "[]", unfolded stack]
  from inst
  have empty: "fst (resolve_route example_parser init_PythonRouteMap ?scope) =
          (Inl (NotFoundException []) :: exception + string)"
    by (rule conjunct1)
  from inst first route leaf request parsed
  have "fst (resolve_route example_parser ?self1 ?scope) = Inr ''home''"
    by blast
  with registered empty show ?thesis by blast
qed

subsection \<open>Mounts\<close>

text \<open>
  Literal children are followed first, so the components that name a chain of children
  lead to the node at its end.
\<close>

lemma traverse_loop_node_at:
  assumes "node_at cur components = Some node"
  shows "fst (traverse_loop cur (components @ rest) path_params scope) =
           fst (traverse_loop node rest path_params scope)"
    and "fst (snd (traverse_loop cur (components @ rest) path_params scope)) =
           fst (snd (traverse_loop node rest path_params scope))"
  using assms
proof (induction components arbitrary: cur)
  case Nil
  {
    case 1
    then show ?case by simp
  next
    case 2
    then show ?case by simp
  }
next
  case (Cons component components)
  {
    case 1
    then obtain child where child: "map_of (children cur) component = Some child"
      and below: "node_at child components = Some node"
      by (auto split: option.splits)
    from Cons.IH(1) [OF below] child show ?case
      by (simp add: traverse_loop_exact_found)
  next
    case 2
    then obtain child where child: "map_of (children cur) component = Some child"
      and below: "node_at child components = Some node"
      by (auto split: option.splits)
    from Cons.IH(2) [OF below] child show ?case
      by (simp add: traverse_loop_exact_found)
  }
qed

text \<open>
  At a node with a static path other than \<^verbatim>\<open>/\<close>, segments that are neither literal
  children nor caught by a wildcard child are all taken by the mount: the walk ends at
  the node. For each of them every occurrence of the static path is deleted from
  \<^verbatim>\<open>scope["path"]\<close>.
\<close>

lemma traverse_loop_mount_absorbs:
  assumes "data cur = Some d" and "static_path d \<noteq> []" and "static_path d \<noteq> ''/''"
      and "\<forall>component \<in> set components. map_of (children cur) component = None"
      and "map_of (children cur) ''*'' = None"
  shows "traverse_loop cur components path_params scope =
           (Inr (cur, path_params),
            scope\<lparr>scope_path :=
              ((\<lambda>p. replace p (static_path d) []) ^^ length components) (scope_path scope)\<rparr>,
            cur)"
  using assms(4)
proof (induction components arbitrary: scope)
  case Nil
  show ?case by simp
next
  case (Cons component components)
  let ?scope' = "scope\<lparr>scope_path := replace (scope_path scope) (static_path d) []\<rparr>"
  from Cons.prems have "map_of (children cur) component = None" by simp
  with assms have "traverse_loop cur (component # components) path_params scope =
      traverse_loop cur components path_params ?scope'"
    by (simp add: traverse_loop_mount)
  moreover from Cons.prems have "\<forall>component \<in> set components. map_of (children cur) component = None"
    by simp
  ultimately have step: "traverse_loop cur (component # components) path_params scope =
      (Inr (cur, path_params),
       scope\<lparr>scope_path :=
         ((\<lambda>p. replace p (static_path d) []) ^^ length components)
           (replace (scope_path scope) (static_path d) [])\<rparr>,
       cur)"
    by (simp add: Cons.IH)
  have swap: "(f ^^ n) (f x) = (f ^^ Suc n) x" for f :: "string \<Rightarrow> string" and n x
    by (simp add: funpow_swap1)
  have "((\<lambda>p. replace p (static_path d) []) ^^ length components)
           (replace (scope_path scope) (static_path d) []) =
        ((\<lambda>p. replace p (static_path d) []) ^^ length (component # components))
           (scope_path scope)"
    using swap [where f = "\<lambda>p. replace p (static_path d) []" and n = "length components"
                  and x = "scope_path scope"]
    by simp
  with step show ?case by (simp only:)
qed

lemma resolve_route_mount:
  assumes "map_of (plain_routes self) (request_path (scope_path scope)) = None"
      and "components_of (request_path (scope_path scope)) = mount_components @ rest"
      and "node_at (tree self) mount_components = Some cur"
      and "data cur = Some d" and "static_path d \<noteq> []" and "static_path d \<noteq> ''/''"
      and "\<forall>component \<in> set rest. map_of (children cur) component = None"
      and "map_of (children cur) ''*'' = None"
      and "is_asgi d" and "map_of (asgi_handlers d) ScopeType_ASGI = Some h"
      and "parse_path_params (path_parameters d) [] = Inr parsed"
  shows "fst (resolve_route parse_path_params self scope) = Inr h"
    and "scope_path (fst (snd (resolve_route parse_path_params self scope))) =
           ((\<lambda>p. replace p (static_path d) []) ^^ length rest) (scope_path scope)"
proof -
  let ?pth = "request_path (scope_path scope)"
  have walk: "traverse_loop cur rest [] scope =
      (Inr (cur, []),
       scope\<lparr>scope_path := ((\<lambda>p. replace p (static_path d) []) ^^ length rest) (scope_path scope)\<rparr>,
       cur)"
    using assms(4,5,6,7,8) by (rule traverse_loop_mount_absorbs)
  from assms(1,2) traverse_loop_node_at(1) [OF assms(3), of rest "[]" scope] walk
  have found: "fst (find_node self ?pth scope) = Inr (cur, [])"
    by (simp add: find_node_tree)
  from assms(1,2) traverse_loop_node_at(2) [OF assms(3), of rest "[]" scope] walk
  have after: "fst (snd (find_node self ?pth scope)) =
      scope\<lparr>scope_path := ((\<lambda>p. replace p (static_path d) []) ^^ length rest) (scope_path scope)\<rparr>"
    by (simp add: find_node_tree)
  from found assms(4,9,10,11) show "fst (resolve_route parse_path_params self scope) = Inr h"
    by (simp add: resolve_route_dispatch dispatch_leaf)
  from found after assms(4,9,10,11)
  show "scope_path (fst (snd (resolve_route parse_path_params self scope))) =
           ((\<lambda>p. replace p (static_path d) []) ^^ length rest) (scope_path scope)"
    by (simp add: resolve_route_found dispatch_def Let_def)
qed

text \<open>
  Claim C1 holds but for the rewriting of the path: \<^verbatim>\<open>replace\<close> deletes the static path
  wherever it occurs in \<^verbatim>\<open>scope["path"]\<close>, not only at its beginning. With the mount at
  \<^verbatim>\<open>/static\<close>, the request \<^verbatim>\<open>/static/a/static/b\<close> is resolved to the mounted app and its
  path becomes \<^verbatim>\<open>/a/b\<close>; without the prefix it is \<^verbatim>\<open>/a/static/b\<close>. The request
  \<^verbatim>\<open>/static/css/app.css\<close> becomes \<^verbatim>\<open>/css/app.css\<close>.
\<close>

theorem C1_mount_deletes_every_occurrence:
  "fst (resolve_route example_parser example_map (http_scope ''/static/a/static/b'' ''GET'')) =
     Inr ''static_files'' \<and>
   scope_path (fst (snd (resolve_route example_parser example_map
       (http_scope ''/static/a/static/b'' ''GET'')))) = ''/a/b'' \<and>
   fst (resolve_route example_parser example_map (http_scope ''/static/css/app.css'' ''GET'')) =
     Inr ''static_files'' \<and>
   scope_path (fst (snd (resolve_route example_parser example_map
       (http_scope ''/static/css/app.css'' ''GET'')))) = ''/css/app.css''"
  by code_simp

end
